theory Spec2Isabelle
  imports Complex_Main "HOL-Library.Product_Lexorder" "HOL-Library.List_Lexorder" "HOL-Library.Char_ord"
begin

section \<open>Golf scoring: the calculator functions of \<open>app/golf_calc.py\<close>\<close>

text \<open>
  Python integers are unbounded, so they are modelled by \<^typ>\<open>int\<close>. Exceptions of
  the source are values of \<open>py_error\<close>.
\<close>

datatype py_error = IndexError | KeyError | ValueError | AttributeError

subsection \<open>\<open>stableford_points\<close>\<close>

text \<open>
  The chain of early returns of the source, in the source's order:
  \<^verbatim>\<open>
  diff = net_strokes - par
  if diff >= 2: return 0
  if diff == 1: return 1
  if diff == 0: return 2
  if diff == -1: return 3
  if diff == -2: return 4
  if diff == -3: return 5
  return 6
  \<close>
\<close>

definition stableford_points :: "int \<Rightarrow> int \<Rightarrow> int" where
  "stableford_points net_strokes par =
     (let diff = net_strokes - par in
      if diff \<ge> 2 then 0
      else if diff = 1 then 1
      else if diff = 0 then 2
      else if diff = -1 then 3
      else if diff = -2 then 4
      else if diff = -3 then 5
      else 6)"

text \<open>
  The table as the specification words it (section 4.2), a function of
  \<open>diff = strokes - par\<close>: diff \<le> -3 gives 6, -2 gives 5, -1 gives 4, 0 gives 3,
  1 gives 2, 2 gives 1, diff \<ge> 3 gives 0. It is only compared with the code.
\<close>

definition spec_stableford_table :: "int \<Rightarrow> int" where
  "spec_stableford_table diff =
     (if diff \<le> -3 then 6
      else if diff = -2 then 5
      else if diff = -1 then 4
      else if diff = 0 then 3
      else if diff = 1 then 2
      else if diff = 2 then 1
      else 0)"

subsection \<open>\<open>course_handicap\<close>\<close>




subsection \<open>Holes and \<open>strokes_received_per_hole\<close>\<close>

text \<open>
  A row of the table \<open>holes\<close> (\<open>models.Hole\<close>): the hole's number in its course, its
  par and its stroke index.
\<close>

record hole =
  hole_number :: int
  hole_par :: int
  hole_stroke_index :: int

text \<open>
  \<^verbatim>\<open>
  base = ch // 18
  extra = ch % 18
  ordered = sorted(holes, key=lambda h: h.stroke_index)
  received = {h.number: base for h in holes}
  for i in range(extra):
      received[ordered[i].number] += 1
  return received
  \<close>
  Python's \<open>//\<close> and \<open>%\<close> with the positive divisor 18 are the floored
  \<^const>\<open>divide\<close> and \<^const>\<open>modulo\<close> of \<^typ>\<open>int\<close>. \<open>sorted\<close> is stable, as
  \<^const>\<open>sort_key\<close> is. The dictionary is a map from hole numbers to strokes.
  \<open>bump_received\<close> is the \<open>for\<close> loop, from index \<open>i\<close> on: \<open>ordered[i]\<close> raises
  \<open>IndexError\<close> beyond the list and \<open>received[k] += 1\<close> raises \<open>KeyError\<close> on a
  missing key.
\<close>

function bump_received :: "nat \<Rightarrow> nat \<Rightarrow> hole list \<Rightarrow> (int \<rightharpoonup> int) \<Rightarrow> py_error + (int \<rightharpoonup> int)" where
  "bump_received i extra ordered received =
     (if i < extra then
        (if i < length ordered then
           (case received (hole_number (ordered ! i)) of
              None \<Rightarrow> Inl KeyError
            | Some v \<Rightarrow>
                bump_received (i + 1) extra ordered
                  (received(hole_number (ordered ! i) \<mapsto> v + 1)))
         else Inl IndexError)
      else Inr received)"
  by pat_completeness auto
termination
  by (relation "measure (\<lambda>(i, extra, ordered, received). extra - i)") auto

declare bump_received.simps [simp del]

definition strokes_received_per_hole :: "int \<Rightarrow> hole list \<Rightarrow> py_error + (int \<rightharpoonup> int)" where
  "strokes_received_per_hole ch holes =
     (let base = ch div 18;
          extra = ch mod 18;
          ordered = sort_key hole_stroke_index holes;
          received = fold (\<lambda>h m. m(hole_number h \<mapsto> base)) holes Map.empty
      in bump_received 0 (nat extra) ordered received)"

text \<open>A course used to evaluate the definitions: 18 holes, numbered 1 to 18.\<close>

definition sample_course :: "hole list" where
  "sample_course =
     [\<lparr>hole_number = 1, hole_par = 4, hole_stroke_index = 7\<rparr>,
      \<lparr>hole_number = 2, hole_par = 5, hole_stroke_index = 15\<rparr>,
      \<lparr>hole_number = 3, hole_par = 3, hole_stroke_index = 3\<rparr>,
      \<lparr>hole_number = 4, hole_par = 4, hole_stroke_index = 11\<rparr>,
      \<lparr>hole_number = 5, hole_par = 4, hole_stroke_index = 1\<rparr>,
      \<lparr>hole_number = 6, hole_par = 3, hole_stroke_index = 17\<rparr>,
      \<lparr>hole_number = 7, hole_par = 5, hole_stroke_index = 9\<rparr>,
      \<lparr>hole_number = 8, hole_par = 4, hole_stroke_index = 5\<rparr>,
      \<lparr>hole_number = 9, hole_par = 4, hole_stroke_index = 13\<rparr>,
      \<lparr>hole_number = 10, hole_par = 4, hole_stroke_index = 8\<rparr>,
      \<lparr>hole_number = 11, hole_par = 3, hole_stroke_index = 16\<rparr>,
      \<lparr>hole_number = 12, hole_par = 5, hole_stroke_index = 4\<rparr>,
      \<lparr>hole_number = 13, hole_par = 4, hole_stroke_index = 12\<rparr>,
      \<lparr>hole_number = 14, hole_par = 4, hole_stroke_index = 2\<rparr>,
      \<lparr>hole_number = 15, hole_par = 3, hole_stroke_index = 18\<rparr>,
      \<lparr>hole_number = 16, hole_par = 4, hole_stroke_index = 10\<rparr>,
      \<lparr>hole_number = 17, hole_par = 5, hole_stroke_index = 6\<rparr>,
      \<lparr>hole_number = 18, hole_par = 4, hole_stroke_index = 14\<rparr>]"

section \<open>The tables of \<open>app/models.py\<close>\<close>

text \<open>
  Each SQLAlchemy model is a record of the columns that the modelled functions read or
  write; a nullable column has an option type. The database is the list of rows of each
  table. Field names carry the table's prefix, since Isabelle's record fields share one
  name space.
\<close>

record player =
  pl_id :: int
  pl_name :: string

record course =
  c_id :: int
  c_slope_yellow :: int
  c_rating_yellow :: rat

record round =
  r_id :: int
  r_course_id :: int
  r_league_id :: "int option"
  r_winner_type :: "string option"
  r_winner_player_ids :: "string option"

record round_player =
  rp_id :: int
  rp_round_id :: int
  rp_player_id :: int
  rp_course_handicap :: int
  rp_gross_total :: "int option"
  rp_net_total :: "int option"
  rp_stableford_hcp_total :: "int option"
  rp_stableford_scratch_total :: "int option"
  rp_putts_total :: "int option"
  rp_result :: "string option"

record hole_score =
  hs_round_player_id :: int
  hs_hole_number :: int
  hs_gross_strokes :: int
  hs_putts :: "int option"
  hs_fir :: "bool option"
  hs_gir :: "bool option"
  hs_net_strokes :: "int option"
  hs_stableford_points :: "int option"

record league =
  lg_id :: int
  lg_is_closed :: "bool option"

record db =
  db_players :: "player list"
  db_courses :: "course list"
  db_rounds :: "round list"
  db_round_players :: "round_player list"
  db_hole_scores :: "hole_score list"

section \<open>Saving a card: \<open>crud.save_card_for_round_player\<close>\<close>

text \<open>
  The local counters of the function, with the source's names, and the \<open>HoleScore\<close> rows
  passed to \<open>db.add\<close> so far.
\<close>

record card_acc =
  gross_total :: int
  net_total :: int
  points_total :: int
  scratch_points_total :: int
  putts_total :: int
  birdies :: int
  eagles :: int
  pars :: int
  bogeys :: int
  dbl :: int
  overdbl :: int
  hio :: int
  albatros :: int
  par3_sum :: int
  par4_sum :: int
  par5_sum :: int
  par3_n :: int
  par4_n :: int
  par5_n :: int
  fir_total :: int
  fir_possible :: int
  gir_total :: int
  gir_possible :: int
  added :: "hole_score list"

definition card_start :: card_acc where
  "card_start =
     \<lparr>gross_total = 0, net_total = 0, points_total = 0, scratch_points_total = 0,
      putts_total = 0, birdies = 0, eagles = 0, pars = 0, bogeys = 0, dbl = 0, overdbl = 0,
      hio = 0, albatros = 0, par3_sum = 0, par4_sum = 0, par5_sum = 0,
      par3_n = 0, par4_n = 0, par5_n = 0,
      fir_total = 0, fir_possible = 0, gir_total = 0, gir_possible = 0, added = []\<rparr>"

text \<open>
  \<open>bool(x)\<close> on a value that is \<open>None\<close>, \<open>True\<close> or \<open>False\<close>, and \<open>d.get(k, dflt)\<close>.
\<close>

definition py_bool :: "bool option \<Rightarrow> bool" where
  "py_bool v = (case v of None \<Rightarrow> False | Some b \<Rightarrow> b)"

definition get_default :: "('k \<rightharpoonup> 'v) \<Rightarrow> 'k \<Rightarrow> 'v \<Rightarrow> 'v" where
  "get_default d k dflt = (case d k of None \<Rightarrow> dflt | Some v \<Rightarrow> v)"

text \<open>
  The body of \<open>for h in holes\<close>, block by block. The dictionaries are
  \<open>gross_by_hole: dict[int, int]\<close>, \<open>putts_by_hole: dict[int, int | None]\<close> and
  \<open>fir_by_hole\<close>, whose values are \<open>True\<close>, \<open>False\<close> or \<open>None\<close>; on values of these
  types \<open>int(x)\<close> is the identity and \<open>p_raw not in (None, "", " ")\<close> is
  \<open>p_raw is not None\<close>.
  \<^verbatim>\<open>
  g = int(gross_by_hole[h.number])
  p_raw = putts_by_hole.get(h.number)
  p = int(p_raw) if p_raw not in (None, "", " ") else None
  net = g - received[h.number]
  pts = stableford_points(net, h.par)
  scratch_pts = stableford_points(g, h.par)
  gross_total += g; net_total += net; points_total += pts; scratch_points_total += scratch_pts
  if p is not None: putts_total += p
  fir_val = None
  if h.par != 3:
      fir_possible += 1
      fir_val = bool(fir_by_hole.get(h.number, False))
      if fir_val: fir_total += 1
  gir_val = None
  if p is not None:
      gir_possible += 1
      gir_val = (g - p) <= (h.par - 2)
      if gir_val: gir_total += 1
  \<close>
  followed by the result counters (\<open>g == 1\<close> first, then \<open>d = g - h.par\<close>), the sums per
  par, and \<open>db.add(HoleScore(...))\<close>.
\<close>

definition acc_totals :: "int \<Rightarrow> int \<Rightarrow> int \<Rightarrow> int \<Rightarrow> card_acc \<Rightarrow> card_acc" where
  "acc_totals g net pts scratch_pts a =
     a\<lparr>gross_total := gross_total a + g,
       net_total := net_total a + net,
       points_total := points_total a + pts,
       scratch_points_total := scratch_points_total a + scratch_pts\<rparr>"

definition acc_putts :: "int option \<Rightarrow> card_acc \<Rightarrow> card_acc" where
  "acc_putts p a =
     (case p of None \<Rightarrow> a | Some pv \<Rightarrow> a\<lparr>putts_total := putts_total a + pv\<rparr>)"

definition fir_of :: "(int \<rightharpoonup> bool option) \<Rightarrow> hole \<Rightarrow> bool option" where
  "fir_of fir_by_hole h =
     (if hole_par h \<noteq> 3
      then Some (py_bool (get_default fir_by_hole (hole_number h) (Some False)))
      else None)"

definition acc_fir :: "hole \<Rightarrow> bool option \<Rightarrow> card_acc \<Rightarrow> card_acc" where
  "acc_fir h fir_val a =
     (if hole_par h \<noteq> 3
      then (let a = a\<lparr>fir_possible := fir_possible a + 1\<rparr>
            in if fir_val = Some True then a\<lparr>fir_total := fir_total a + 1\<rparr> else a)
      else a)"

definition gir_of :: "hole \<Rightarrow> int \<Rightarrow> int option \<Rightarrow> bool option" where
  "gir_of h g p =
     (case p of None \<Rightarrow> None | Some pv \<Rightarrow> Some (g - pv \<le> hole_par h - 2))"

definition acc_gir :: "int option \<Rightarrow> bool option \<Rightarrow> card_acc \<Rightarrow> card_acc" where
  "acc_gir p gir_val a =
     (case p of
        None \<Rightarrow> a
      | Some pv \<Rightarrow>
          (let a = a\<lparr>gir_possible := gir_possible a + 1\<rparr>
           in if gir_val = Some True then a\<lparr>gir_total := gir_total a + 1\<rparr> else a))"

definition acc_result :: "hole \<Rightarrow> int \<Rightarrow> card_acc \<Rightarrow> card_acc" where
  "acc_result h g a =
     (if g = 1 then a\<lparr>hio := hio a + 1\<rparr>
      else (let d = g - hole_par h in
            if d \<le> -3 then a\<lparr>albatros := albatros a + 1\<rparr>
            else if d = -2 then a\<lparr>eagles := eagles a + 1\<rparr>
            else if d = -1 then a\<lparr>birdies := birdies a + 1\<rparr>
            else if d = 0 then a\<lparr>pars := pars a + 1\<rparr>
            else if d = 1 then a\<lparr>bogeys := bogeys a + 1\<rparr>
            else if d = 2 then a\<lparr>dbl := dbl a + 1\<rparr>
            else a\<lparr>overdbl := overdbl a + 1\<rparr>))"

definition acc_par :: "hole \<Rightarrow> int \<Rightarrow> card_acc \<Rightarrow> card_acc" where
  "acc_par h g a =
     (if hole_par h = 3 then a\<lparr>par3_sum := par3_sum a + g, par3_n := par3_n a + 1\<rparr>
      else if hole_par h = 4 then a\<lparr>par4_sum := par4_sum a + g, par4_n := par4_n a + 1\<rparr>
      else if hole_par h = 5 then a\<lparr>par5_sum := par5_sum a + g, par5_n := par5_n a + 1\<rparr>
      else a)"

definition card_hole ::
  "int \<Rightarrow> (int \<rightharpoonup> int) \<Rightarrow> (int \<rightharpoonup> int) \<Rightarrow> (int \<rightharpoonup> int option) \<Rightarrow> (int \<rightharpoonup> bool option)
   \<Rightarrow> hole \<Rightarrow> card_acc \<Rightarrow> py_error + card_acc" where
  "card_hole rpid received gross_by_hole putts_by_hole fir_by_hole h a =
     (case gross_by_hole (hole_number h) of
        None \<Rightarrow> Inl KeyError
      | Some g \<Rightarrow>
          (let p = get_default putts_by_hole (hole_number h) None in
           case received (hole_number h) of
             None \<Rightarrow> Inl KeyError
           | Some rcv \<Rightarrow>
               (let net = g - rcv;
                    pts = stableford_points net (hole_par h);
                    scratch_pts = stableford_points g (hole_par h);
                    a = acc_totals g net pts scratch_pts a;
                    a = acc_putts p a;
                    fir_val = fir_of fir_by_hole h;
                    a = acc_fir h fir_val a;
                    gir_val = gir_of h g p;
                    a = acc_gir p gir_val a;
                    a = acc_result h g a;
                    a = acc_par h g a;
                    hs = \<lparr>hs_round_player_id = rpid,
                          hs_hole_number = hole_number h,
                          hs_gross_strokes = g,
                          hs_putts = p,
                          hs_fir = fir_val,
                          hs_gir = gir_val,
                          hs_net_strokes = Some net,
                          hs_stableford_points = Some pts\<rparr>
                in Inr (a\<lparr>added := added a @ [hs]\<rparr>))))"

text \<open>A \<open>for\<close> loop whose body may raise: the first exception ends the loop.\<close>

fun for_each :: "('a \<Rightarrow> 's \<Rightarrow> py_error + 's) \<Rightarrow> 'a list \<Rightarrow> 's \<Rightarrow> py_error + 's" where
  "for_each body [] st = Inr st"
| "for_each body (x # xs) st =
     (case body x st of Inl e \<Rightarrow> Inl e | Inr st' \<Rightarrow> for_each body xs st')"

text \<open>
  The function: the rows of the round player are deleted and the deletion committed, the
  strokes received are computed, the loop runs, the totals are written to the round
  player and committed. The result pairs what the call returns (the dictionary of
  totals, or the exception raised) with the database as committed: an exception after
  the first commit leaves the rows deleted and nothing else changed.
\<close>

record card_summary =
  sm_gross_total :: int
  sm_net_total :: int
  sm_points_total :: int
  sm_fir_total :: int
  sm_fir_possible :: int
  sm_gir_total :: int
  sm_gir_possible :: int
  sm_hio :: int
  sm_albatros :: int
  sm_eagles :: int
  sm_birdies :: int
  sm_pars :: int
  sm_bogeys :: int
  sm_dbl :: int
  sm_overdbl :: int

definition save_card_for_round_player ::
  "db \<Rightarrow> round_player \<Rightarrow> hole list \<Rightarrow> (int \<rightharpoonup> int) \<Rightarrow> (int \<rightharpoonup> int option)
   \<Rightarrow> (int \<rightharpoonup> bool option) \<Rightarrow> (py_error + card_summary) \<times> db" where
  "save_card_for_round_player db rp holes gross_by_hole putts_by_hole fir_by_hole =
     (let db = db\<lparr>db_hole_scores :=
                 filter (\<lambda>hs. hs_round_player_id hs \<noteq> rp_id rp) (db_hole_scores db)\<rparr>
      in case strokes_received_per_hole (rp_course_handicap rp) holes of
           Inl e \<Rightarrow> (Inl e, db)
         | Inr received \<Rightarrow>
             (case for_each (card_hole (rp_id rp) received gross_by_hole putts_by_hole fir_by_hole)
                     holes card_start of
                Inl e \<Rightarrow> (Inl e, db)
              | Inr a \<Rightarrow>
                  (let rp = rp\<lparr>rp_gross_total := Some (gross_total a),
                                rp_net_total := Some (net_total a),
                                rp_stableford_hcp_total := Some (points_total a),
                                rp_stableford_scratch_total := Some (scratch_points_total a),
                                rp_putts_total := Some (putts_total a)\<rparr>
                   in (Inr \<lparr>sm_gross_total = gross_total a,
                             sm_net_total = net_total a,
                             sm_points_total = points_total a,
                             sm_fir_total = fir_total a,
                             sm_fir_possible = fir_possible a,
                             sm_gir_total = gir_total a,
                             sm_gir_possible = gir_possible a,
                             sm_hio = hio a,
                             sm_albatros = albatros a,
                             sm_eagles = eagles a,
                             sm_birdies = birdies a,
                             sm_pars = pars a,
                             sm_bogeys = bogeys a,
                             sm_dbl = dbl a,
                             sm_overdbl = overdbl a\<rparr>,
                       db\<lparr>db_hole_scores := db_hole_scores db @ added a,
                          db_round_players :=
                            map (\<lambda>x. if rp_id x = rp_id rp then rp else x)
                              (db_round_players db)\<rparr>))))"

text \<open>Sample data for evaluating the definitions.\<close>

definition sample_db :: db where
  "sample_db =
     \<lparr>db_players = [], db_courses = [], db_rounds = [], db_round_players = [],
      db_hole_scores = []\<rparr>"

definition sample_rp :: round_player where
  "sample_rp =
     \<lparr>rp_id = 1, rp_round_id = 1, rp_player_id = 1, rp_course_handicap = 15,
      rp_gross_total = None, rp_net_total = None, rp_stableford_hcp_total = None,
      rp_stableford_scratch_total = None, rp_putts_total = None, rp_result = None\<rparr>"

definition sample_gross :: "int \<rightharpoonup> int" where
  "sample_gross = map_of (map (\<lambda>h. (hole_number h, 4)) sample_course)"

definition sample_putts :: "int \<rightharpoonup> int option" where
  "sample_putts = [1 \<mapsto> Some 2, 2 \<mapsto> None, 3 \<mapsto> Some 1]"

definition sample_fir :: "int \<rightharpoonup> bool option" where
  "sample_fir = [1 \<mapsto> Some True, 3 \<mapsto> None, 4 \<mapsto> Some False]"

section \<open>Resolving a round: \<open>crud.close_round_and_set_winner\<close>\<close>

text \<open>
  \<open>str\<close> of an integer (decimal digits, a minus sign for a negative number) and
  \<open>sep.join\<close>.
\<close>

function str_nat :: "nat \<Rightarrow> string" where
  "str_nat n =
     (if n < 10 then [''0123456789'' ! n]
      else str_nat (n div 10) @ [''0123456789'' ! (n mod 10)])"
  by pat_completeness auto
termination
  by (relation "measure id") auto

declare str_nat.simps [simp del]

definition str_int :: "int \<Rightarrow> string" where
  "str_int i = (if i < 0 then CHR ''-'' # str_nat (nat (- i)) else str_nat (nat i))"

fun join :: "string \<Rightarrow> string list \<Rightarrow> string" where
  "join sep [] = []"
| "join sep [x] = x"
| "join sep (x # y # ys) = x @ sep @ join sep (y # ys)"

text \<open>\<open>max\<close> of a sequence of integers: \<open>ValueError\<close> on the empty sequence.\<close>

definition py_max :: "int list \<Rightarrow> py_error + int" where
  "py_max xs = (case xs of [] \<Rightarrow> Inl ValueError | x # rest \<Rightarrow> Inr (fold max rest x))"

text \<open>
  The two queries: \<open>db.query(Round).filter(Round.id == round_id).first()\<close> and
  \<open>db.query(RoundPlayer).filter(RoundPlayer.round_id == round_id).all()\<close>.
\<close>

definition get_round :: "db \<Rightarrow> int \<Rightarrow> round option" where
  "get_round db round_id = find (\<lambda>r. r_id r = round_id) (db_rounds db)"

definition get_round_players :: "db \<Rightarrow> int \<Rightarrow> round_player list" where
  "get_round_players db round_id =
     filter (\<lambda>rp. rp_round_id rp = round_id) (db_round_players db)"

text \<open>
  Writing to the object that \<open>.first()\<close> returned changes that row of the table: the
  first row that satisfies the filter.
\<close>

fun update_first :: "('a \<Rightarrow> bool) \<Rightarrow> ('a \<Rightarrow> 'a) \<Rightarrow> 'a list \<Rightarrow> 'a list" where
  "update_first P f [] = []"
| "update_first P f (x # xs) = (if P x then f x # xs else x # update_first P f xs)"

text \<open>
  \<^verbatim>\<open>
  r = get_round(db, round_id)
  rps = get_round_players(db, round_id)
  max_pts = max(rp.stableford_hcp_total for rp in rps if rp.stableford_hcp_total is not None)
  winners = [rp for rp in rps if rp.stableford_hcp_total == max_pts]
  if len(winners) == 1:
      r.winner_type = "single"
      r.winner_player_ids = str(winners[0].player_id)
      for rp in rps:
          rp.result = "win" if rp.id == winners[0].id else "loss"
  else:
      r.winner_type = "tie"
      r.winner_player_ids = ",".join(str(w.player_id) for w in winners)
      for rp in rps:
          rp.result = "tie" if rp in winners else "loss"
  db.commit()
  \<close>
  The result pairs the exception raised, if any, with the database as committed. The
  session is created with \<open>autoflush=False\<close> and closed by the request, so an exception
  before \<open>db.commit()\<close> leaves the database as it was. \<open>max\<close> raises before anything
  is assigned; the first assignment to \<open>r\<close> raises \<open>AttributeError\<close> when the round
  does not exist. \<open>rp in winners\<close> compares objects; \<open>winners\<close> is a sublist of \<open>rps\<close>
  selected by a property of the row, so membership by value is the same.
\<close>

definition close_round_and_set_winner :: "db \<Rightarrow> int \<Rightarrow> py_error option \<times> db" where
  "close_round_and_set_winner db round_id =
     (let r = get_round db round_id;
          rps = get_round_players db round_id
      in case py_max (List.map_filter rp_stableford_hcp_total rps) of
           Inl e \<Rightarrow> (Some e, db)
         | Inr max_pts \<Rightarrow>
             (let winners = filter (\<lambda>rp. rp_stableford_hcp_total rp = Some max_pts) rps
              in case r of
                   None \<Rightarrow> (Some AttributeError, db)
                 | Some _ \<Rightarrow>
                     if length winners = 1 then
                       (None,
                        db\<lparr>db_rounds :=
                             update_first (\<lambda>x. r_id x = round_id)
                               (\<lambda>x. x\<lparr>r_winner_type := Some ''single'',
                                      r_winner_player_ids :=
                                        Some (str_int (rp_player_id (winners ! 0)))\<rparr>)
                               (db_rounds db),
                           db_round_players :=
                             map (\<lambda>rp. if rp_round_id rp = round_id
                                       then rp\<lparr>rp_result :=
                                              Some (if rp_id rp = rp_id (winners ! 0)
                                                    then ''win'' else ''loss'')\<rparr>
                                       else rp)
                               (db_round_players db)\<rparr>)
                     else
                       (None,
                        db\<lparr>db_rounds :=
                             update_first (\<lambda>x. r_id x = round_id)
                               (\<lambda>x. x\<lparr>r_winner_type := Some ''tie'',
                                      r_winner_player_ids :=
                                        Some (join '','' (map (\<lambda>w. str_int (rp_player_id w)) winners))\<rparr>)
                               (db_rounds db),
                           db_round_players :=
                             map (\<lambda>rp. if rp_round_id rp = round_id
                                       then rp\<lparr>rp_result :=
                                              Some (if rp \<in> set winners
                                                    then ''tie'' else ''loss'')\<rparr>
                                       else rp)
                               (db_round_players db)\<rparr>)))"

text \<open>Sample rounds: one round, numbered 1, and its participants.\<close>

definition sample_participant :: "int \<Rightarrow> int \<Rightarrow> int option \<Rightarrow> int option \<Rightarrow> round_player" where
  "sample_participant i pid gross pts =
     \<lparr>rp_id = i, rp_round_id = 1, rp_player_id = pid, rp_course_handicap = 0,
      rp_gross_total = gross, rp_net_total = gross, rp_stableford_hcp_total = pts,
      rp_stableford_scratch_total = pts, rp_putts_total = None, rp_result = None\<rparr>"

definition sample_round :: round where
  "sample_round =
     \<lparr>r_id = 1, r_course_id = 1, r_league_id = Some 1, r_winner_type = None,
      r_winner_player_ids = None\<rparr>"

definition sample_round_db :: "round_player list \<Rightarrow> db" where
  "sample_round_db rps =
     \<lparr>db_players = [], db_courses = [], db_rounds = [sample_round],
      db_round_players = rps, db_hole_scores = []\<rparr>"

definition four_players :: "round_player list" where
  "four_players =
     [sample_participant 11 21 (Some 90) (Some 10), sample_participant 12 22 (Some 85) (Some 15),
      sample_participant 13 23 (Some 86) (Some 15), sample_participant 14 24 (Some 95) (Some 8)]"

definition three_players :: "round_player list" where
  "three_players =
     [sample_participant 11 21 (Some 90) (Some 10), sample_participant 12 22 (Some 85) (Some 15),
      sample_participant 14 24 (Some 95) (Some 8)]"

definition unscored_players :: "round_player list" where
  "unscored_players =
     [sample_participant 11 21 None None, sample_participant 12 22 None None]"

section \<open>League standings: \<open>crud.compute_league_standings\<close>\<close>

text \<open>
  The relationships \<open>r.round_players\<close>, \<open>rp.player\<close> and \<open>r.course\<close> are loaded through
  the session from the rows that carry the foreign key; a many-to-one relationship
  whose row is missing is \<open>None\<close>.
\<close>

definition round_players_of :: "db \<Rightarrow> round \<Rightarrow> round_player list" where
  "round_players_of db r = filter (\<lambda>rp. rp_round_id rp = r_id r) (db_round_players db)"

definition player_of :: "db \<Rightarrow> round_player \<Rightarrow> player option" where
  "player_of db rp = find (\<lambda>p. pl_id p = rp_player_id rp) (db_players db)"

definition course_of :: "db \<Rightarrow> round \<Rightarrow> course option" where
  "course_of db r = find (\<lambda>c. c_id c = r_course_id r) (db_courses db)"

text \<open>
  The dictionary of one player in \<open>stats\<close>, with the keys of the source, and the value
  that the \<open>defaultdict\<close> creates. The league points are a Python float; as for the
  course handicap, float arithmetic is modelled by exact arithmetic on \<^typ>\<open>rat\<close>.
\<close>

record player_stats =
  st_player :: "player option"
  st_rounds :: int
  st_wins :: int
  st_ties :: int
  st_f1_points :: rat
  st_gross_sum :: int
  st_gross_count :: int
  st_best_gross :: "int option"
  st_net_sum :: int
  st_net_count :: int
  st_scratch_sum :: int
  st_stableford_sum :: int
  st_level_hcp_sum :: rat
  st_level_hcp_count :: int

definition default_stats :: player_stats where
  "default_stats =
     \<lparr>st_player = None, st_rounds = 0, st_wins = 0, st_ties = 0, st_f1_points = 0,
      st_gross_sum = 0, st_gross_count = 0, st_best_gross = None,
      st_net_sum = 0, st_net_count = 0, st_scratch_sum = 0, st_stableford_sum = 0,
      st_level_hcp_sum = 0, st_level_hcp_count = 0\<rparr>"

type_synonym stats = "(int \<times> player_stats) list"

text \<open>
  \<open>stats\<close> is a \<open>defaultdict\<close> keyed by player id, iterated in insertion order: an
  association list with distinct keys. \<open>stats_modify k f\<close> is \<open>s = stats[k]\<close> followed
  by the in-place changes \<open>f\<close> of \<open>s\<close>: a missing key is appended with the changed
  default.
\<close>

fun stats_modify :: "int \<Rightarrow> (player_stats \<Rightarrow> player_stats) \<Rightarrow> stats \<Rightarrow> stats" where
  "stats_modify k f [] = [(k, f default_stats)]"
| "stats_modify k f ((k', s) # rest) =
     (if k' = k then (k', f s) # rest else (k', s) # stats_modify k f rest)"

text \<open>What \<open>stats[k]\<close> reads: the entry of \<open>k\<close>, the default for a missing key.\<close>

definition stats_get :: "stats \<Rightarrow> int \<Rightarrow> player_stats" where
  "stats_get stats k = (case map_of stats k of None \<Rightarrow> default_stats | Some s \<Rightarrow> s)"

text \<open>
  The body of \<open>for rp in rps\<close>, block by block:
  \<^verbatim>\<open>
  s = stats[rp.player_id]
  if s["player"] is None: s["player"] = rp.player
  s["rounds"] += 1
  if rp.result == "win": s["wins"] += 1
  elif rp.result == "tie": s["ties"] += 1
  if rp.gross_total is not None:
      s["gross_sum"] += rp.gross_total
      s["gross_count"] += 1
      if s["best_gross"] is None or rp.gross_total < s["best_gross"]:
          s["best_gross"] = rp.gross_total
      course = r.course
      if course and course.slope_yellow and course.rating_yellow is not None:
          level_hcp = ((rp.gross_total - course.rating_yellow) * 113) / course.slope_yellow
          s["level_hcp_sum"] += level_hcp
          s["level_hcp_count"] += 1
  if rp.net_total is not None:
      s["net_sum"] += rp.net_total
      s["net_count"] += 1
  if rp.stableford_scratch_total is not None: s["scratch_sum"] += rp.stableford_scratch_total
  if rp.stableford_hcp_total is not None: s["stableford_sum"] += rp.stableford_hcp_total
  \<close>
  The columns \<open>slope_yellow\<close> and \<open>rating_yellow\<close> are not nullable, so
  \<open>course.slope_yellow\<close> is false only at 0 and \<open>rating_yellow is not None\<close> holds.
\<close>

definition upd_player :: "db \<Rightarrow> round_player \<Rightarrow> player_stats \<Rightarrow> player_stats" where
  "upd_player db rp s = (if st_player s = None then s\<lparr>st_player := player_of db rp\<rparr> else s)"

definition upd_rounds :: "player_stats \<Rightarrow> player_stats" where
  "upd_rounds s = s\<lparr>st_rounds := st_rounds s + 1\<rparr>"

definition upd_result :: "round_player \<Rightarrow> player_stats \<Rightarrow> player_stats" where
  "upd_result rp s =
     (if rp_result rp = Some ''win'' then s\<lparr>st_wins := st_wins s + 1\<rparr>
      else if rp_result rp = Some ''tie'' then s\<lparr>st_ties := st_ties s + 1\<rparr>
      else s)"

definition upd_level :: "db \<Rightarrow> round \<Rightarrow> int \<Rightarrow> player_stats \<Rightarrow> player_stats" where
  "upd_level db r g s =
     (case course_of db r of
        None \<Rightarrow> s
      | Some course \<Rightarrow>
          if c_slope_yellow course \<noteq> 0
          then (let level_hcp = ((of_int g - c_rating_yellow course) * 113)
                                  / of_int (c_slope_yellow course)
                in s\<lparr>st_level_hcp_sum := st_level_hcp_sum s + level_hcp,
                      st_level_hcp_count := st_level_hcp_count s + 1\<rparr>)
          else s)"

definition upd_best :: "int \<Rightarrow> player_stats \<Rightarrow> player_stats" where
  "upd_best g s =
     (case st_best_gross s of
        None \<Rightarrow> s\<lparr>st_best_gross := Some g\<rparr>
      | Some b \<Rightarrow> if g < b then s\<lparr>st_best_gross := Some g\<rparr> else s)"

definition upd_gross :: "db \<Rightarrow> round \<Rightarrow> round_player \<Rightarrow> player_stats \<Rightarrow> player_stats" where
  "upd_gross db r rp s =
     (case rp_gross_total rp of
        None \<Rightarrow> s
      | Some g \<Rightarrow>
          upd_level db r g
            (upd_best g
              (s\<lparr>st_gross_sum := st_gross_sum s + g, st_gross_count := st_gross_count s + 1\<rparr>)))"

definition upd_net :: "round_player \<Rightarrow> player_stats \<Rightarrow> player_stats" where
  "upd_net rp s =
     (case rp_net_total rp of
        None \<Rightarrow> s
      | Some t \<Rightarrow> s\<lparr>st_net_sum := st_net_sum s + t, st_net_count := st_net_count s + 1\<rparr>)"

definition upd_scratch :: "round_player \<Rightarrow> player_stats \<Rightarrow> player_stats" where
  "upd_scratch rp s =
     (case rp_stableford_scratch_total rp of
        None \<Rightarrow> s
      | Some t \<Rightarrow> s\<lparr>st_scratch_sum := st_scratch_sum s + t\<rparr>)"

definition upd_stableford :: "round_player \<Rightarrow> player_stats \<Rightarrow> player_stats" where
  "upd_stableford rp s =
     (case rp_stableford_hcp_total rp of
        None \<Rightarrow> s
      | Some t \<Rightarrow> s\<lparr>st_stableford_sum := st_stableford_sum s + t\<rparr>)"

definition base_update :: "db \<Rightarrow> round \<Rightarrow> round_player \<Rightarrow> player_stats \<Rightarrow> player_stats" where
  "base_update db r rp s =
     upd_stableford rp (upd_scratch rp (upd_net rp (upd_gross db r rp
       (upd_result rp (upd_rounds (upd_player db rp s))))))"

text \<open>
  One round of \<open>for r in rounds\<close>:
  \<^verbatim>\<open>
  rps = [rp for rp in r.round_players if rp.gross_total is not None]
  n = len(rps)
  if n == 0: continue
  rps_sorted = sorted(rps, key=lambda rp: (rp.stableford_hcp_total is None,
                                            -(rp.stableford_hcp_total or 0)))
  for rp in rps: ... (the blocks above)
  valid_rps = [rp for rp in rps_sorted if rp.stableford_hcp_total is not None]
  n_valid = len(valid_rps)
  if n_valid == 0: continue
  best_points = valid_rps[0].stableford_hcp_total
  winners = [rp for rp in valid_rps if rp.stableford_hcp_total == best_points]
  total_points_round = float(n_valid - 1)
  if total_points_round < 0: total_points_round = 0.0
  points_per_winner = total_points_round / len(winners) if winners else 0.0
  for rp in winners:
      stats[rp.player_id]["f1_points"] += points_per_winner
  \<close>
\<close>

definition add_f1 :: "rat \<Rightarrow> player_stats \<Rightarrow> player_stats" where
  "add_f1 points_per_winner s = s\<lparr>st_f1_points := st_f1_points s + points_per_winner\<rparr>"

definition f1_key :: "round_player \<Rightarrow> bool \<times> int" where
  "f1_key rp =
     (rp_stableford_hcp_total rp = None,
      - (case rp_stableford_hcp_total rp of None \<Rightarrow> 0 | Some t \<Rightarrow> t))"

definition round_step :: "db \<Rightarrow> round \<Rightarrow> stats \<Rightarrow> stats" where
  "round_step db r stats =
     (let rps = filter (\<lambda>rp. rp_gross_total rp \<noteq> None) (round_players_of db r);
          n = length rps
      in if n = 0 then stats
         else
           (let rps_sorted = sort_key f1_key rps;
                stats = fold (\<lambda>rp. stats_modify (rp_player_id rp) (base_update db r rp)) rps stats;
                valid_rps = filter (\<lambda>rp. rp_stableford_hcp_total rp \<noteq> None) rps_sorted;
                n_valid = length valid_rps
            in if n_valid = 0 then stats
               else
                 (let best_points = rp_stableford_hcp_total (valid_rps ! 0);
                      winners = filter (\<lambda>rp. rp_stableford_hcp_total rp = best_points) valid_rps;
                      total_points_round = (of_int (int n_valid - 1) :: rat);
                      total_points_round =
                        (if total_points_round < 0 then 0 else total_points_round);
                      points_per_winner =
                        (if winners \<noteq> [] then total_points_round / of_nat (length winners)
                         else 0)
                  in fold (\<lambda>rp. stats_modify (rp_player_id rp) (add_f1 points_per_winner))
                       winners stats)))"

text \<open>The rows of the four tables, the champions and the returned dictionary.\<close>

record main_row =
  mr_player :: "player option"
  mr_points :: rat
  mr_rounds :: int

record net_row =
  nr_player :: "player option"
  nr_avg_net :: rat
  nr_rounds :: int

record scratch_row =
  sr_player :: "player option"
  sr_total_scratch :: int
  sr_rounds :: int

record table_row =
  tr_player :: "player option"
  tr_rounds :: int
  tr_wins :: int
  tr_ties :: int
  tr_gross_total :: int
  tr_net_total :: int
  tr_stableford_total :: int
  tr_scratch_total :: int
  tr_avg_gross :: "rat option"
  tr_level_hcp :: "rat option"
  tr_best_gross :: "int option"
  tr_f1_points :: rat

record champions =
  main_players :: "int list"
  net_players :: "int list"
  scratch_players :: "int list"

record standings =
  sd_main :: "main_row list"
  sd_net :: "net_row list"
  sd_scratch :: "scratch_row list"
  sd_players_table :: "table_row list"
  sd_champions :: champions

text \<open>
  \<open>sorted(rows, key=...)\<close> computes the key of every row first, then sorts the rows by
  their keys, stably. A key reads \<open>row["player"].name\<close>, which raises
  \<open>AttributeError\<close> when the player is \<open>None\<close>; so does \<open>p.id\<close>.
\<close>

fun map_raise :: "('a \<Rightarrow> py_error + 'b) \<Rightarrow> 'a list \<Rightarrow> py_error + 'b list" where
  "map_raise f [] = Inr []"
| "map_raise f (x # xs) =
     (case f x of
        Inl e \<Rightarrow> Inl e
      | Inr y \<Rightarrow> (case map_raise f xs of Inl e \<Rightarrow> Inl e | Inr ys \<Rightarrow> Inr (y # ys)))"

definition py_sorted :: "('a \<Rightarrow> py_error + 'k::linorder) \<Rightarrow> 'a list \<Rightarrow> py_error + 'a list" where
  "py_sorted key xs =
     (case map_raise key xs of
        Inl e \<Rightarrow> Inl e
      | Inr ks \<Rightarrow> Inr (map snd (sort_key fst (zip ks xs))))"

definition name_of :: "player option \<Rightarrow> py_error + string" where
  "name_of p = (case p of None \<Rightarrow> Inl AttributeError | Some q \<Rightarrow> Inr (pl_name q))"

definition id_of :: "player option \<Rightarrow> py_error + int" where
  "id_of p = (case p of None \<Rightarrow> Inl AttributeError | Some q \<Rightarrow> Inr (pl_id q))"

definition main_key :: "main_row \<Rightarrow> py_error + rat \<times> int \<times> string" where
  "main_key row =
     (case name_of (mr_player row) of
        Inl e \<Rightarrow> Inl e | Inr nm \<Rightarrow> Inr (- mr_points row, - mr_rounds row, nm))"

definition net_key :: "net_row \<Rightarrow> py_error + rat \<times> int \<times> string" where
  "net_key row =
     (case name_of (nr_player row) of
        Inl e \<Rightarrow> Inl e | Inr nm \<Rightarrow> Inr (nr_avg_net row, - nr_rounds row, nm))"

definition scratch_key :: "scratch_row \<Rightarrow> py_error + int \<times> int \<times> string" where
  "scratch_key row =
     (case name_of (sr_player row) of
        Inl e \<Rightarrow> Inl e | Inr nm \<Rightarrow> Inr (- sr_total_scratch row, - sr_rounds row, nm))"

definition table_key :: "table_row \<Rightarrow> py_error + rat \<times> string" where
  "table_key row =
     (case name_of (tr_player row) of
        Inl e \<Rightarrow> Inl e | Inr nm \<Rightarrow> Inr (- tr_f1_points row, nm))"

text \<open>
  The rows built from one entry of \<open>stats\<close>. A net row is built only when
  \<open>net_count > 0\<close>, a scratch row only when \<open>scratch_sum > 0\<close>.
\<close>

definition main_row_of :: "player_stats \<Rightarrow> main_row" where
  "main_row_of s =
     \<lparr>mr_player = st_player s, mr_points = st_f1_points s, mr_rounds = st_rounds s\<rparr>"

definition net_row_of :: "player_stats \<Rightarrow> net_row" where
  "net_row_of s =
     \<lparr>nr_player = st_player s,
      nr_avg_net = of_int (st_net_sum s) / of_int (st_net_count s),
      nr_rounds = st_rounds s\<rparr>"

definition scratch_row_of :: "player_stats \<Rightarrow> scratch_row" where
  "scratch_row_of s =
     \<lparr>sr_player = st_player s, sr_total_scratch = st_scratch_sum s, sr_rounds = st_rounds s\<rparr>"

definition table_row_of :: "player_stats \<Rightarrow> table_row" where
  "table_row_of s =
     \<lparr>tr_player = st_player s,
      tr_rounds = st_rounds s,
      tr_wins = st_wins s,
      tr_ties = st_ties s,
      tr_gross_total = st_gross_sum s,
      tr_net_total = st_net_sum s,
      tr_stableford_total = st_stableford_sum s,
      tr_scratch_total = st_scratch_sum s,
      tr_avg_gross =
        (if st_gross_count s > 0
         then Some (of_int (st_gross_sum s) / of_int (st_gross_count s)) else None),
      tr_level_hcp =
        (if st_level_hcp_count s > 0
         then Some (st_level_hcp_sum s / of_int (st_level_hcp_count s)) else None),
      tr_best_gross = st_best_gross s,
      tr_f1_points = st_f1_points s\<rparr>"

text \<open>
  The champions, from the sorted tables:
  \<^verbatim>\<open>
  if main_rows:
      best_points = main_rows[0]["points"]
      main_champions = [row["player"] for row in main_rows if row["points"] == best_points]
  eligible_net = [row for row in net_rows if row["rounds"] >= 5]
  if eligible_net:
      best_avg_net = eligible_net[0]["avg_net"]
      net_champions = [row["player"] for row in eligible_net if row["avg_net"] == best_avg_net]
  if scratch_rows:
      best_scratch = scratch_rows[0]["total_scratch"]
      scratch_champions = [row["player"] for row in scratch_rows
                           if row["total_scratch"] == best_scratch]
  \<close>
  computed only \<open>if getattr(league, "is_closed", False)\<close>.
\<close>

definition main_champions :: "main_row list \<Rightarrow> player option list" where
  "main_champions main_rows =
     (case main_rows of
        [] \<Rightarrow> []
      | row0 # _ \<Rightarrow> map mr_player (filter (\<lambda>row. mr_points row = mr_points row0) main_rows))"

definition net_champions :: "net_row list \<Rightarrow> player option list" where
  "net_champions net_rows =
     (let eligible_net = filter (\<lambda>row. nr_rounds row \<ge> 5) net_rows
      in case eligible_net of
           [] \<Rightarrow> []
         | row0 # _ \<Rightarrow>
             map nr_player (filter (\<lambda>row. nr_avg_net row = nr_avg_net row0) eligible_net))"

definition scratch_champions :: "scratch_row list \<Rightarrow> player option list" where
  "scratch_champions scratch_rows =
     (case scratch_rows of
        [] \<Rightarrow> []
      | row0 # _ \<Rightarrow>
          map sr_player
            (filter (\<lambda>row. sr_total_scratch row = sr_total_scratch row0) scratch_rows))"

definition is_closed :: "league \<Rightarrow> bool" where
  "is_closed league = (lg_is_closed league = Some True)"

definition compute_league_standings :: "db \<Rightarrow> league \<Rightarrow> round list \<Rightarrow> py_error + standings" where
  "compute_league_standings db league rounds =
     (let stats = fold (round_step db) rounds [];
          main_rows = map (\<lambda>(player_id, s). main_row_of s) stats;
          net_rows = map (\<lambda>(player_id, s). net_row_of s)
                       (filter (\<lambda>(player_id, s). st_net_count s > 0) stats);
          scratch_rows = map (\<lambda>(player_id, s). scratch_row_of s)
                           (filter (\<lambda>(player_id, s). st_scratch_sum s > 0) stats);
          players_table = map (\<lambda>(player_id, s). table_row_of s) stats
      in case py_sorted main_key main_rows of
           Inl e \<Rightarrow> Inl e
         | Inr main_rows \<Rightarrow>
       (case py_sorted net_key net_rows of
           Inl e \<Rightarrow> Inl e
         | Inr net_rows \<Rightarrow>
       (case py_sorted scratch_key scratch_rows of
           Inl e \<Rightarrow> Inl e
         | Inr scratch_rows \<Rightarrow>
       (case py_sorted table_key players_table of
           Inl e \<Rightarrow> Inl e
         | Inr players_table \<Rightarrow>
           (let closed = is_closed league;
                main_ch = (if closed then main_champions main_rows else []);
                net_ch = (if closed then net_champions net_rows else []);
                scratch_ch = (if closed then scratch_champions scratch_rows else [])
            in case map_raise id_of main_ch of
                 Inl e \<Rightarrow> Inl e
               | Inr main_ids \<Rightarrow>
             (case map_raise id_of net_ch of
                 Inl e \<Rightarrow> Inl e
               | Inr net_ids \<Rightarrow>
             (case map_raise id_of scratch_ch of
                 Inl e \<Rightarrow> Inl e
               | Inr scratch_ids \<Rightarrow>
                 Inr \<lparr>sd_main = main_rows, sd_net = net_rows, sd_scratch = scratch_rows,
                      sd_players_table = players_table,
                      sd_champions =
                        \<lparr>main_players = main_ids, net_players = net_ids,
                         scratch_players = scratch_ids\<rparr>\<rparr>)))))))"





definition sample_league :: league where
  "sample_league = \<lparr>lg_id = 1, lg_is_closed = Some True\<rparr>"

section \<open>The aggregates of the specification\<close>

text \<open>
  The quantities that the specification (section 4.5) and the claims name, defined
  directly from the rows and not by the loop; the standings are compared with them.
  The participations of a player that a league counts are the round players of the
  league's rounds with that player id and a non-null gross total (the rounds the player
  has a card for). From them: the rounds played, the non-null net totals and their
  average, whether the player may be net champion (at least 5 rounds played, and an
  average to compare), and the sum of the scratch-Stableford points.
\<close>

definition spec_participations :: "db \<Rightarrow> round list \<Rightarrow> int \<Rightarrow> round_player list" where
  "spec_participations db rounds pid =
     concat (map (\<lambda>r. filter (\<lambda>rp. rp_gross_total rp \<noteq> None \<and> rp_player_id rp = pid)
                         (round_players_of db r)) rounds)"

definition spec_rounds_played :: "db \<Rightarrow> round list \<Rightarrow> int \<Rightarrow> int" where
  "spec_rounds_played db rounds pid = int (length (spec_participations db rounds pid))"

definition spec_net_totals :: "db \<Rightarrow> round list \<Rightarrow> int \<Rightarrow> int list" where
  "spec_net_totals db rounds pid = List.map_filter rp_net_total (spec_participations db rounds pid)"

definition spec_average_net :: "db \<Rightarrow> round list \<Rightarrow> int \<Rightarrow> rat" where
  "spec_average_net db rounds pid =
     of_int (sum_list (spec_net_totals db rounds pid)) / of_nat (length (spec_net_totals db rounds pid))"

definition spec_net_eligible :: "db \<Rightarrow> round list \<Rightarrow> int \<Rightarrow> bool" where
  "spec_net_eligible db rounds pid \<longleftrightarrow>
     5 \<le> spec_rounds_played db rounds pid \<and> spec_net_totals db rounds pid \<noteq> []"

definition spec_scratch_sum :: "db \<Rightarrow> round list \<Rightarrow> int \<Rightarrow> int" where
  "spec_scratch_sum db rounds pid =
     sum_list (List.map_filter rp_stableford_scratch_total (spec_participations db rounds pid))"

text \<open>
  Every entry of \<open>stats\<close> holds the player that its key resolves to: an invariant of
  the loop over the rounds.
\<close>

definition players_linked :: "db \<Rightarrow> stats \<Rightarrow> bool" where
  "players_linked db S \<longleftrightarrow>
     (\<forall>k\<in>fst ` set S.
        st_player (stats_get S k) = find (\<lambda>p. pl_id p = k) (db_players db))"

text \<open>The sort keys of rows whose player is present.\<close>

definition main_key_of :: "main_row \<Rightarrow> rat \<times> int \<times> string" where
  "main_key_of row = (- mr_points row, - mr_rounds row, pl_name (the (mr_player row)))"

definition net_key_of :: "net_row \<Rightarrow> rat \<times> int \<times> string" where
  "net_key_of row = (nr_avg_net row, - nr_rounds row, pl_name (the (nr_player row)))"

definition scratch_key_of :: "scratch_row \<Rightarrow> int \<times> int \<times> string" where
  "scratch_key_of row =
     (- sr_total_scratch row, - sr_rounds row, pl_name (the (sr_player row)))"

definition table_key_of :: "table_row \<Rightarrow> rat \<times> string" where
  "table_key_of row = (- tr_f1_points row, pl_name (the (tr_player row)))"

text \<open>
  A league of three players and five rounds: players 21 and 22 play all five and both
  average 71 net; player 23 plays four rounds, averages 60 net and scores no scratch
  points. And a league of one round in which nobody scores a scratch point.
\<close>

definition league_entry :: "int \<Rightarrow> int \<Rightarrow> int \<Rightarrow> int \<Rightarrow> int \<Rightarrow> round_player" where
  "league_entry i rid pid net scratch =
     \<lparr>rp_id = i, rp_round_id = rid, rp_player_id = pid, rp_course_handicap = 10,
      rp_gross_total = Some (net + 10), rp_net_total = Some net,
      rp_stableford_hcp_total = Some 30, rp_stableford_scratch_total = Some scratch,
      rp_putts_total = Some 30, rp_result = None\<rparr>"

definition league_round :: "int \<Rightarrow> round" where
  "league_round i =
     \<lparr>r_id = i, r_course_id = 1, r_league_id = Some 1, r_winner_type = None,
      r_winner_player_ids = None\<rparr>"

definition league_db :: db where
  "league_db =
     \<lparr>db_players = [\<lparr>pl_id = 21, pl_name = ''Ana''\<rparr>, \<lparr>pl_id = 22, pl_name = ''Bea''\<rparr>,
                     \<lparr>pl_id = 23, pl_name = ''Cid''\<rparr>],
      db_courses = [\<lparr>c_id = 1, c_slope_yellow = 120, c_rating_yellow = 71\<rparr>],
      db_rounds = map league_round [1, 2, 3, 4, 5],
      db_round_players =
        [league_entry 1 1 21 70 20, league_entry 2 1 22 71 18, league_entry 3 1 23 60 0,
         league_entry 4 2 21 72 19, league_entry 5 2 22 71 18, league_entry 6 2 23 60 0,
         league_entry 7 3 21 71 20, league_entry 8 3 22 71 21, league_entry 9 3 23 60 0,
         league_entry 10 4 21 69 22, league_entry 11 4 22 71 18, league_entry 12 4 23 60 0,
         league_entry 13 5 21 73 17, league_entry 14 5 22 71 18],
      db_hole_scores = []\<rparr>"

definition five_rounds :: "round list" where
  "five_rounds = map league_round [1, 2, 3, 4, 5]"

definition four_rounds :: "round list" where
  "four_rounds = map league_round [1, 2, 3, 4]"

definition duffers_db :: db where
  "duffers_db =
     \<lparr>db_players = [\<lparr>pl_id = 21, pl_name = ''Ana''\<rparr>, \<lparr>pl_id = 22, pl_name = ''Bea''\<rparr>],
      db_courses = [],
      db_rounds = [league_round 1],
      db_round_players = [league_entry 1 1 21 95 0, league_entry 2 1 22 99 0],
      db_hole_scores = []\<rparr>"

section \<open>The card form: the fairway flags of \<open>main.round_card_player_save\<close>\<close>

text \<open>
  The part of the request handler that builds \<open>fir_by_hole\<close> from the submitted form
  (a form holds a value for the name \<open>fir_N\<close> only when the box of hole \<open>N\<close> is checked):
  \<^verbatim>\<open>
  for h in holes:
      fir_val = form.get(f"fir_{h.number}")
      if h.par <= 3:
          fir_by_hole[h.number] = None
      else:
          fir_by_hole[h.number] = (fir_val is not None)
  \<close>
\<close>

definition form_fir_by_hole :: "(string \<rightharpoonup> string) \<Rightarrow> hole list \<Rightarrow> (int \<rightharpoonup> bool option)" where
  "form_fir_by_hole form holes =
     fold (\<lambda>h fir_by_hole.
             fir_by_hole(hole_number h \<mapsto>
               (if hole_par h \<le> 3 then None
                else Some (form (''fir_'' @ str_int (hole_number h)) \<noteq> None))))
       holes Map.empty"

section \<open>Properties\<close>

subsection \<open>Stableford points\<close>

text \<open>
  C1 (as stated, refuted). The claim gives 3 points at par (diff = 0); the code gives 2:
  a hole played in 4 strokes on a par 4 scores 2 points, where the specification's table
  says 3.
\<close>

theorem stableford_points_table_counterexample:
  "stableford_points 4 4 = 2 \<and> spec_stableford_table (4 - 4) = 3"
  by (simp add: stableford_points_def spec_stableford_table_def)

text \<open>
  C1 (amended). For all integer strokes \<open>s\<close> and par \<open>p\<close>, with \<open>diff = s - p\<close>,
  \<open>stableford_points s p\<close> is 0 for diff \<ge> 2, 1 for diff = 1, 2 for diff = 0, 3 for
  diff = -1, 4 for diff = -2, 5 for diff = -3 and 6 for diff \<le> -4: every entry is one
  less than the specification's table, except at the saturation ends. The function
  saturates at 0 for diff \<ge> 2 and at 6 for diff \<le> -4, and it is monotonically
  non-increasing in diff. The function takes any strokes value, so this covers the call
  with net strokes and the call with gross strokes.
\<close>

theorem stableford_points_table:
  "stableford_points s p =
     (if s - p \<le> -4 then 6
      else if s - p = -3 then 5
      else if s - p = -2 then 4
      else if s - p = -1 then 3
      else if s - p = 0 then 2
      else if s - p = 1 then 1
      else 0)
   \<and> (s - p \<ge> 2 \<longrightarrow> stableford_points s p = 0)
   \<and> (s - p \<le> -4 \<longrightarrow> stableford_points s p = 6)
   \<and> (s - p \<le> s' - p' \<longrightarrow> stableford_points s' p' \<le> stableford_points s p)"
  by (simp add: stableford_points_def Let_def)

theorem stableford_points_table_witness:
  "stableford_points 3 4 = 3 \<and> stableford_points 7 4 = 0 \<and> stableford_points 1 5 = 6
   \<and> stableford_points 5 4 \<le> stableford_points 4 4"
  using stableford_points_table [of 3 4 5 4] stableford_points_table [of 7 4 7 4]
    stableford_points_table [of 1 5 1 5] stableford_points_table [of 4 4 5 4]
  by simp

subsection \<open>Course handicap\<close>





subsection \<open>Handicap strokes per hole\<close>

lemma fold_received:
  "fold (\<lambda>h m. m(hole_number h \<mapsto> base)) holes m0 k =
     (if k \<in> hole_number ` set holes then Some base else m0 k)"
  by (induction holes arbitrary: m0) auto

lemma bump_received_result:
  assumes "i \<le> extra" "extra \<le> length ordered" "distinct (map hole_number ordered)"
    and "\<forall>h\<in>set ordered. received (hole_number h) \<noteq> None"
  shows "bump_received i extra ordered received =
     Inr (\<lambda>k. if k \<in> hole_number ` set (drop i (take extra ordered))
               then map_option (\<lambda>v. v + 1) (received k) else received k)"
  using assms
proof (induction i extra ordered received rule: bump_received.induct)
  case (1 i extra ordered received)
  show ?case
  proof (cases "i < extra")
    case False
    with "1.prems" have "i = extra" by simp
    then show ?thesis by (simp add: bump_received.simps)
  next
    case True
    with "1.prems" have il: "i < length ordered" by simp
    let ?k = "hole_number (ordered ! i)"
    from il "1.prems"(4) obtain v where v: "received ?k = Some v"
      by (metis nth_mem not_None_eq)
    let ?r = "received(?k \<mapsto> v + 1)"
    have dom': "\<forall>h\<in>set ordered. ?r (hole_number h) \<noteq> None"
      using "1.prems"(4) by simp
    have IH: "bump_received (i + 1) extra ordered ?r =
       Inr (\<lambda>k. if k \<in> hole_number ` set (drop (i + 1) (take extra ordered))
               then map_option (\<lambda>v. v + 1) (?r k) else ?r k)"
    proof (rule "1.IH" [OF True il v _ "1.prems"(2,3) dom'])
      show "i + 1 \<le> extra" using True by simp
    qed
    have split: "drop i (take extra ordered) = ordered ! i # drop (i + 1) (take extra ordered)"
      using True il by (simp add: Cons_nth_drop_Suc [symmetric])
    have dist: "distinct (map hole_number (drop i (take extra ordered)))"
      using "1.prems"(3) by (simp add: distinct_map distinct_drop inj_on_def take_map[symmetric] drop_map[symmetric] distinct_take)
    have notin: "?k \<notin> hole_number ` set (drop (i + 1) (take extra ordered))"
      using dist unfolding split by simp
    have "bump_received i extra ordered received = bump_received (i + 1) extra ordered ?r"
      using True il v by (subst bump_received.simps) simp
    also note IH
    also have "(\<lambda>k. if k \<in> hole_number ` set (drop (i + 1) (take extra ordered))
               then map_option (\<lambda>v. v + 1) (?r k) else ?r k) =
       (\<lambda>k. if k \<in> hole_number ` set (drop i (take extra ordered))
               then map_option (\<lambda>v. v + 1) (received k) else received k)"
    proof
      fix k
      show "(if k \<in> hole_number ` set (drop (i + 1) (take extra ordered))
               then map_option (\<lambda>v. v + 1) (?r k) else ?r k) =
            (if k \<in> hole_number ` set (drop i (take extra ordered))
               then map_option (\<lambda>v. v + 1) (received k) else received k)"
      proof (cases "k = ?k")
        case True
        then show ?thesis using notin v by (simp add: split)
      next
        case False
        then show ?thesis by (simp add: split)
      qed
    qed
    finally show ?thesis .
  qed
qed

lemma ordered_stroke_index:
  assumes "length holes = 18" "set (map hole_stroke_index holes) = {1..18}"
  shows "map hole_stroke_index (sort_key hole_stroke_index holes) = [1..18]"
proof -
  let ?xs = "map hole_stroke_index (sort_key hole_stroke_index holes)"
  have s: "set ?xs = {1..18}" using assms(2) by simp
  have "card (set ?xs) = length ?xs" using assms(1) by (simp only: s) simp
  then have d: "distinct ?xs" by (rule card_distinct)
  have "sorted ?xs" by (rule sorted_sort_key)
  then show ?thesis
    using d s by (intro sorted_distinct_set_unique) simp_all
qed


lemma take_ordered_set:
  assumes "length holes = 18" "set (map hole_stroke_index holes) = {1..18}" "n \<le> 18"
  shows "set (take n (sort_key hole_stroke_index holes)) =
         {h \<in> set holes. hole_stroke_index h \<le> int n}"
proof -
  let ?o = "sort_key hole_stroke_index holes"
  have len: "length ?o = 18" using assms(1) by simp
  have si: "hole_stroke_index (?o ! j) = 1 + int j" if "j < 18" for j
  proof -
    have "hole_stroke_index (?o ! j) = map hole_stroke_index ?o ! j"
      using that len by simp
    also have "\<dots> = [1..18] ! j"
      by (simp only: ordered_stroke_index [OF assms(1,2)])
    also have "\<dots> = 1 + int j" using that by (simp add: nth_upto)
    finally show ?thesis .
  qed
  show ?thesis
  proof (intro set_eqI iffI)
    fix h assume "h \<in> set (take n ?o)"
    then obtain j where j: "j < n" "j < length ?o" "h = ?o ! j"
      by (auto simp: in_set_conv_nth)
    then have "h \<in> set ?o" by (metis nth_mem)
    moreover have "hole_stroke_index h \<le> int n" using j si [of j] len by simp
    ultimately show "h \<in> {h \<in> set holes. hole_stroke_index h \<le> int n}" by simp
  next
    fix h assume "h \<in> {h \<in> set holes. hole_stroke_index h \<le> int n}"
    then have h: "h \<in> set ?o" "hole_stroke_index h \<le> int n" by simp_all
    from h(1) have "\<exists>j<length ?o. ?o ! j = h" by (simp only: in_set_conv_nth)
    then obtain j where j: "j < length ?o" "h = ?o ! j" by blast
    with si [of j] h(2) len have "j < n" by simp
    with j show "h \<in> set (take n ?o)"
      by (auto simp: in_set_conv_nth intro!: exI [of _ j])
  qed
qed

text \<open>
  C2. For every course handicap \<open>ch \<ge> 0\<close> and every 18 holes of a course (their numbers
  are distinct: the data model has \<open>number\<close> unique within a course, and the result is
  keyed by it) whose stroke indexes form a permutation of 1..18,
  \<open>strokes_received_per_hole\<close> returns a dictionary over the holes' numbers in which
  every hole has \<open>ch div 18\<close> strokes, plus one for exactly the holes of stroke index
  at most \<open>ch mod 18\<close>, which are the \<open>ch mod 18\<close> holes of lowest stroke index; the
  values of the dictionary sum to \<open>ch\<close>.
\<close>

theorem strokes_received_per_hole_distribution:
  assumes ch: "0 \<le> ch"
    and len: "length holes = 18"
    and perm: "set (map hole_stroke_index holes) = {1..18}"
    and nums: "distinct (map hole_number holes)"
  shows "\<exists>received. strokes_received_per_hole ch holes = Inr received
     \<and> dom received = hole_number ` set holes
     \<and> (\<forall>h\<in>set holes. received (hole_number h) =
          Some (ch div 18 + (if hole_stroke_index h \<le> ch mod 18 then 1 else 0)))
     \<and> card {h \<in> set holes. received (hole_number h) = Some (ch div 18 + 1)} = nat (ch mod 18)
     \<and> (\<Sum>k\<in>dom received. the (received k)) = ch"
proof -
  define base where "base = ch div 18"
  define extra where "extra = nat (ch mod 18)"
  define ordered where "ordered = sort_key hole_stroke_index holes"
  define r0 where "r0 = fold (\<lambda>h m. m(hole_number h \<mapsto> base)) holes Map.empty"
  define T where "T = set (take extra ordered)"
  define received where "received =
     (\<lambda>k. if k \<in> hole_number ` T then map_option (\<lambda>v. v + 1) (r0 k) else r0 k)"
  have extra18: "extra \<le> 18" unfolding extra_def by simp
  have extra_int: "int extra = ch mod 18" unfolding extra_def by simp
  have dist_h: "distinct holes" and inj: "inj_on hole_number (set holes)"
    using nums by (simp_all add: distinct_map)
  have dist_o: "distinct (map hole_number ordered)"
    using dist_h inj unfolding ordered_def by (simp add: distinct_map)
  have r0: "r0 k = (if k \<in> hole_number ` set holes then Some base else None)" for k
    unfolding r0_def by (simp add: fold_received)
  have run: "strokes_received_per_hole ch holes = Inr received"
  proof -
    have "bump_received 0 extra ordered r0 =
       Inr (\<lambda>k. if k \<in> hole_number ` set (drop 0 (take extra ordered))
               then map_option (\<lambda>v. v + 1) (r0 k) else r0 k)"
    proof (rule bump_received_result)
      show "extra \<le> length ordered" using extra18 len by (simp add: ordered_def)
      show "\<forall>h\<in>set ordered. r0 (hole_number h) \<noteq> None" by (simp add: r0 ordered_def)
    qed (simp_all add: dist_o)
    then show ?thesis
      by (simp add: strokes_received_per_hole_def Let_def base_def extra_def ordered_def
          r0_def received_def T_def)
  qed
  have T: "T = {h \<in> set holes. hole_stroke_index h \<le> ch mod 18}"
    unfolding T_def ordered_def using take_ordered_set [OF len perm extra18] extra_int by simp
  have T_sub: "T \<subseteq> set holes" using T by auto
  have mem: "hole_number h \<in> hole_number ` T \<longleftrightarrow> h \<in> T" if "h \<in> set holes" for h
    using inj T_sub that by (auto simp: inj_on_def)
  have val: "received (hole_number h) = Some (base + (if h \<in> T then 1 else 0))"
    if "h \<in> set holes" for h
    using that by (simp add: received_def mem r0)
  have dom: "dom received = hole_number ` set holes"
    using T_sub by (auto simp: received_def r0 dom_def split: if_splits)
  have card_T: "card T = extra"
  proof -
    have "distinct (take extra ordered)" using dist_h by (simp add: ordered_def)
    then have "card T = length (take extra ordered)" unfolding T_def by (rule distinct_card)
    also have "\<dots> = extra" using extra18 len by (simp add: ordered_def)
    finally show ?thesis .
  qed
  have each: "\<forall>h\<in>set holes. received (hole_number h) =
          Some (ch div 18 + (if hole_stroke_index h \<le> ch mod 18 then 1 else 0))"
    using val by (simp add: T base_def)
  have "{h \<in> set holes. received (hole_number h) = Some (ch div 18 + 1)} = T"
    using val T_sub by (auto simp: base_def split: if_splits)
  then have cnt: "card {h \<in> set holes. received (hole_number h) = Some (ch div 18 + 1)}
      = nat (ch mod 18)"
    using card_T by (simp add: extra_def)
  have total: "(\<Sum>k\<in>dom received. the (received k)) = ch"
  proof -
    have "(\<Sum>k\<in>dom received. the (received k)) =
          (\<Sum>h\<in>set holes. the (received (hole_number h)))"
      unfolding dom using inj by (simp add: sum.reindex)
    also have "\<dots> = (\<Sum>h\<in>set holes. base + (if h \<in> T then 1 else 0))"
      by (rule sum.cong) (simp_all add: val)
    also have "\<dots> = int (card (set holes)) * base + int (card (set holes \<inter> T))"
      by (simp add: sum.distrib sum.If_cases)
    also have "set holes \<inter> T = T" using T_sub by auto
    also have "card (set holes) = 18" using dist_h len by (simp add: distinct_card)
    also have "int 18 * base + int (card T) = ch"
      using card_T extra_int by (simp add: base_def)
    finally show ?thesis .
  qed
  from run dom each cnt total show ?thesis by blast
qed


theorem strokes_received_per_hole_distribution_witness:
  "0 \<le> (15::int) \<and> length sample_course = 18
   \<and> set (map hole_stroke_index sample_course) = {1..18}
   \<and> distinct (map hole_number sample_course)
   \<and> (\<exists>received. strokes_received_per_hole 15 sample_course = Inr received
        \<and> received 5 = Some 1 \<and> received 15 = Some 0
        \<and> (\<Sum>k\<in>dom received. the (received k)) = 15)"
proof -
  have len: "length sample_course = 18" by (simp add: sample_course_def)
  have perm: "set (map hole_stroke_index sample_course) = {1..18}"
    by code_simp
  have nums: "distinct (map hole_number sample_course)" by (simp add: sample_course_def)
  have h5: "\<lparr>hole_number = 5, hole_par = 4, hole_stroke_index = 1\<rparr> \<in> set sample_course"
   and h15: "\<lparr>hole_number = 15, hole_par = 3, hole_stroke_index = 18\<rparr> \<in> set sample_course"
    by (simp_all add: sample_course_def)
  from strokes_received_per_hole_distribution [OF _ len perm nums, of 15]
  obtain received where r: "strokes_received_per_hole 15 sample_course = Inr received"
    "\<forall>h\<in>set sample_course. received (hole_number h) =
          Some (15 div 18 + (if hole_stroke_index h \<le> 15 mod 18 then 1 else 0))"
    "(\<Sum>k\<in>dom received. the (received k)) = 15"
    by auto
  from r(2) h5 h15 have "received 5 = Some 1" "received 15 = Some 0" by fastforce+
  with r(1,3) len perm nums show ?thesis by simp
qed

subsection \<open>The rows stored by \<open>save_card_for_round_player\<close>\<close>

lemma added_acc [simp]:
  "added (acc_totals g net pts sp a) = added a"
  "added (acc_putts p a) = added a"
  "added (acc_fir h fv a) = added a"
  "added (acc_gir p gv a) = added a"
  "added (acc_result h g a) = added a"
  "added (acc_par h g a) = added a"
  by (simp_all add: acc_totals_def acc_putts_def acc_fir_def acc_gir_def acc_result_def
      acc_par_def Let_def split: option.splits)

lemma card_hole_added:
  assumes "card_hole rpid received gross putts fir h a = Inr a'"
  shows "\<exists>g rcv. gross (hole_number h) = Some g \<and> received (hole_number h) = Some rcv \<and>
     added a' = added a @
       [\<lparr>hs_round_player_id = rpid, hs_hole_number = hole_number h, hs_gross_strokes = g,
         hs_putts = get_default putts (hole_number h) None,
         hs_fir = fir_of fir h,
         hs_gir = gir_of h g (get_default putts (hole_number h) None),
         hs_net_strokes = Some (g - rcv),
         hs_stableford_points = Some (stableford_points (g - rcv) (hole_par h))\<rparr>]"
  using assms by (auto simp: card_hole_def Let_def split: option.splits)

lemma card_hole_ok:
  assumes "gross (hole_number h) \<noteq> None" "received (hole_number h) \<noteq> None"
  shows "\<exists>a'. card_hole rpid received gross putts fir h a = Inr a'"
  using assms by (auto simp: card_hole_def Let_def split: option.splits)


lemma bump_received_dom:
  assumes "extra \<le> length ordered" "\<forall>h\<in>set ordered. received (hole_number h) \<noteq> None"
  shows "\<exists>r. bump_received i extra ordered received = Inr r \<and> dom r = dom received"
  using assms
proof (induction i extra ordered received rule: bump_received.induct)
  case (1 i extra ordered received)
  show ?case
  proof (cases "i < extra")
    case False
    then show ?thesis by (simp add: bump_received.simps)
  next
    case True
    with "1.prems" have il: "i < length ordered" by simp
    let ?k = "hole_number (ordered ! i)"
    from il "1.prems"(2) obtain v where v: "received ?k = Some v"
      by (metis nth_mem not_None_eq)
    let ?r = "received(?k \<mapsto> v + 1)"
    have dom': "\<forall>h\<in>set ordered. ?r (hole_number h) \<noteq> None"
      using "1.prems"(2) by simp
    from "1.IH" [OF True il v "1.prems"(1) dom']
    obtain r where r: "bump_received (i + 1) extra ordered ?r = Inr r" "dom r = dom ?r"
      by blast
    have "dom ?r = dom received" using v by auto
    moreover have "bump_received i extra ordered received = bump_received (i + 1) extra ordered ?r"
      using True il v by (subst bump_received.simps) simp
    ultimately show ?thesis using r by simp
  qed
qed

lemma strokes_received_per_hole_ok:
  assumes "nat (ch mod 18) \<le> length holes"
  shows "\<exists>r. strokes_received_per_hole ch holes = Inr r \<and> dom r = hole_number ` set holes"
proof -
  let ?r0 = "fold (\<lambda>h m. m(hole_number h \<mapsto> ch div 18)) holes Map.empty"
  have r0: "?r0 k = (if k \<in> hole_number ` set holes then Some (ch div 18) else None)" for k
    by (simp add: fold_received)
  have "\<exists>r. bump_received 0 (nat (ch mod 18)) (sort_key hole_stroke_index holes) ?r0 = Inr r
      \<and> dom r = dom ?r0"
    by (rule bump_received_dom) (use assms in \<open>simp_all add: r0\<close>)
  moreover have "dom ?r0 = hole_number ` set holes"
    by (auto simp: r0 dom_def)
  ultimately show ?thesis by (simp add: strokes_received_per_hole_def Let_def)
qed

lemma for_each_card_added:
  assumes "for_each (card_hole rpid received gross putts fir) holes a = Inr a'"
  shows "added a' = added a @
     map (\<lambda>h. \<lparr>hs_round_player_id = rpid, hs_hole_number = hole_number h,
               hs_gross_strokes = the (gross (hole_number h)),
               hs_putts = get_default putts (hole_number h) None,
               hs_fir = fir_of fir h,
               hs_gir = gir_of h (the (gross (hole_number h)))
                          (get_default putts (hole_number h) None),
               hs_net_strokes = Some (the (gross (hole_number h)) - the (received (hole_number h))),
               hs_stableford_points =
                 Some (stableford_points
                   (the (gross (hole_number h)) - the (received (hole_number h))) (hole_par h))\<rparr>)
       holes"
  using assms
proof (induction holes arbitrary: a)
  case Nil
  then show ?case by simp
next
  case (Cons h holes)
  from Cons.prems obtain a1 where a1: "card_hole rpid received gross putts fir h a = Inr a1"
    and rest: "for_each (card_hole rpid received gross putts fir) holes a1 = Inr a'"
    by (auto split: sum.splits)
  from card_hole_added [OF a1] Cons.IH [OF rest] show ?case by auto
qed

lemma for_each_card_ok:
  assumes "\<forall>h\<in>set holes. gross (hole_number h) \<noteq> None \<and> received (hole_number h) \<noteq> None"
  shows "\<exists>a'. for_each (card_hole rpid received gross putts fir) holes a = Inr a'"
  using assms
proof (induction holes arbitrary: a)
  case Nil
  then show ?case by simp
next
  case (Cons h holes)
  then obtain a1 where "card_hole rpid received gross putts fir h a = Inr a1"
    using card_hole_ok [of gross h received rpid putts fir a] by auto
  with Cons show ?case by auto
qed

lemma save_card_rows:
  assumes gross: "\<forall>h\<in>set holes. gross (hole_number h) \<noteq> None"
    and enough: "nat (rp_course_handicap rp mod 18) \<le> length holes"
  shows "\<exists>sm db' received.
     save_card_for_round_player db rp holes gross putts fir = (Inr sm, db')
     \<and> strokes_received_per_hole (rp_course_handicap rp) holes = Inr received
     \<and> db_hole_scores db' =
         filter (\<lambda>hs. hs_round_player_id hs \<noteq> rp_id rp) (db_hole_scores db) @
         map (\<lambda>h. \<lparr>hs_round_player_id = rp_id rp, hs_hole_number = hole_number h,
               hs_gross_strokes = the (gross (hole_number h)),
               hs_putts = get_default putts (hole_number h) None,
               hs_fir = fir_of fir h,
               hs_gir = gir_of h (the (gross (hole_number h)))
                          (get_default putts (hole_number h) None),
               hs_net_strokes = Some (the (gross (hole_number h)) - the (received (hole_number h))),
               hs_stableford_points =
                 Some (stableford_points
                   (the (gross (hole_number h)) - the (received (hole_number h))) (hole_par h))\<rparr>)
           holes"
proof -
  from strokes_received_per_hole_ok [OF enough]
  obtain received where rcv: "strokes_received_per_hole (rp_course_handicap rp) holes = Inr received"
    and dom: "dom received = hole_number ` set holes" by blast
  have "\<forall>h\<in>set holes. gross (hole_number h) \<noteq> None \<and> received (hole_number h) \<noteq> None"
    using gross dom by (auto simp: dom_def)
  from for_each_card_ok [OF this]
  obtain a' where a': "for_each (card_hole (rp_id rp) received gross putts fir) holes card_start = Inr a'"
    by blast
  from for_each_card_added [OF a'] have "added a' = map (\<lambda>h. \<lparr>hs_round_player_id = rp_id rp, hs_hole_number = hole_number h,
               hs_gross_strokes = the (gross (hole_number h)),
               hs_putts = get_default putts (hole_number h) None,
               hs_fir = fir_of fir h,
               hs_gir = gir_of h (the (gross (hole_number h)))
                          (get_default putts (hole_number h) None),
               hs_net_strokes = Some (the (gross (hole_number h)) - the (received (hole_number h))),
               hs_stableford_points =
                 Some (stableford_points
                   (the (gross (hole_number h)) - the (received (hole_number h))) (hole_par h))\<rparr>)
           holes"
    by (simp add: card_start_def)
  with rcv a' show ?thesis
    by (simp add: save_card_for_round_player_def Let_def)
qed

lemma sample_card_ok:
  "\<forall>h\<in>set sample_course. sample_gross (hole_number h) \<noteq> None"
  "nat (rp_course_handicap sample_rp mod 18) \<le> length sample_course"
  by (simp_all add: sample_course_def sample_gross_def sample_rp_def)

lemma sample_course_nth:
  "hole_number (sample_course ! 0) = 1" "hole_par (sample_course ! 0) = 4"
  "hole_number (sample_course ! Suc 0) = 2" "hole_par (sample_course ! Suc 0) = 5"
  "hole_number (sample_course ! 2) = 3" "hole_par (sample_course ! 2) = 3"
  "sample_gross 1 = Some 4" "sample_gross 2 = Some 4" "sample_gross 3 = Some 4"
  "length sample_course = 18"
  by (simp_all add: sample_course_def sample_gross_def)

text \<open>
  The request handler records an unchecked box of a hole of par above 3 as \<open>False\<close>,
  and the card is then stored with FIR \<open>False\<close> for that hole.
\<close>

lemma fold_fir_other:
  assumes "k \<notin> hole_number ` set holes"
  shows "fold (\<lambda>h m. m(hole_number h \<mapsto> v h)) holes m0 k = m0 k"
  using assms by (induction holes arbitrary: m0) auto

lemma fold_fir_value:
  assumes "h \<in> set holes" "distinct (map hole_number holes)"
  shows "fold (\<lambda>h m. m(hole_number h \<mapsto> v h)) holes m0 (hole_number h) = Some (v h)"
  using assms
proof (induction holes arbitrary: m0)
  case Nil
  then show ?case by simp
next
  case (Cons a holes)
  show ?case
  proof (cases "h = a")
    case True
    with Cons.prems(2) have "hole_number a \<notin> hole_number ` set holes" by auto
    from fold_fir_other [OF this, of v "m0(hole_number a \<mapsto> v a)"]
    have "fold (\<lambda>h m. m(hole_number h \<mapsto> v h)) holes (m0(hole_number a \<mapsto> v a))
            (hole_number a) = Some (v a)"
      by simp
    then show ?thesis using True by (simp del: fun_upd_apply)
  next
    case False
    with Cons show ?thesis by auto
  qed
qed

lemma form_fir_unchecked:
  assumes "h \<in> set holes" "distinct (map hole_number holes)"
    and "3 < hole_par h" "form (''fir_'' @ str_int (hole_number h)) = None"
  shows "fir_of (form_fir_by_hole form holes) h = Some False"
  using fold_fir_value [OF assms(1,2),
      of "\<lambda>h. if hole_par h \<le> 3 then None
              else Some (form (''fir_'' @ str_int (hole_number h)) \<noteq> None)" Map.empty] assms(3,4)
  by (simp add: form_fir_by_hole_def fir_of_def get_default_def py_bool_def)

text \<open>
  C7 (as stated, refuted). The card of the sample course is saved with no fairway flag
  at all. Holes 1 and 2 are a par 4 and a par 5: their stored FIR is \<open>False\<close>, not
  null. (Hole 3 is a par 3: null.)
\<close>

theorem save_card_fir_absent_counterexample:
  "hole_par (sample_course ! 0) = 4 \<and> hole_par (sample_course ! 1) = 5
   \<and> map (\<lambda>hs. (hs_hole_number hs, hs_fir hs))
       (take 3 (db_hole_scores (snd (save_card_for_round_player sample_db sample_rp
          sample_course sample_gross Map.empty Map.empty))))
     = [(1, Some False), (2, Some False), (3, None)]"
  by code_simp

text \<open>
  C7 (amended). When the card has a gross score for every hole and the course has at
  least \<open>course_handicap mod 18\<close> holes, the card is saved, with one row per hole in the
  order of the holes, and for every hole: on a par 3 the stored FIR is null; on any
  other hole whose fairway flag is absent from the card input the stored FIR is
  \<open>False\<close>; on any other hole whose flag is recorded as a boolean the stored FIR is that
  boolean.
\<close>

theorem save_card_fir:
  assumes "\<forall>h\<in>set holes. gross (hole_number h) \<noteq> None"
      and "nat (rp_course_handicap rp mod 18) \<le> length holes"
  shows "\<exists>sm db' new.
       save_card_for_round_player db rp holes gross putts fir = (Inr sm, db')
     \<and> db_hole_scores db' =
         filter (\<lambda>hs. hs_round_player_id hs \<noteq> rp_id rp) (db_hole_scores db) @ new
     \<and> length new = length holes
     \<and> (\<forall>i<length holes.
          hs_hole_number (new ! i) = hole_number (holes ! i)
        \<and> (hole_par (holes ! i) = 3 \<longrightarrow> hs_fir (new ! i) = None)
        \<and> (hole_par (holes ! i) \<noteq> 3 \<and> fir (hole_number (holes ! i)) = None \<longrightarrow>
              hs_fir (new ! i) = Some False)
        \<and> (\<forall>b. hole_par (holes ! i) \<noteq> 3 \<and> fir (hole_number (holes ! i)) = Some (Some b) \<longrightarrow>
              hs_fir (new ! i) = Some b))"
proof -
  from save_card_rows [OF assms, of db putts fir]
  obtain sm db' received where
    run: "save_card_for_round_player db rp holes gross putts fir = (Inr sm, db')"
    and rows: "db_hole_scores db' =
         filter (\<lambda>hs. hs_round_player_id hs \<noteq> rp_id rp) (db_hole_scores db) @
         map (\<lambda>h. \<lparr>hs_round_player_id = rp_id rp, hs_hole_number = hole_number h,
               hs_gross_strokes = the (gross (hole_number h)),
               hs_putts = get_default putts (hole_number h) None,
               hs_fir = fir_of fir h,
               hs_gir = gir_of h (the (gross (hole_number h)))
                          (get_default putts (hole_number h) None),
               hs_net_strokes = Some (the (gross (hole_number h)) - the (received (hole_number h))),
               hs_stableford_points =
                 Some (stableford_points
                   (the (gross (hole_number h)) - the (received (hole_number h))) (hole_par h))\<rparr>)
           holes" (is "_ = _ @ ?new")
    by blast
  have "\<forall>i<length holes.
          hs_hole_number (?new ! i) = hole_number (holes ! i)
        \<and> (hole_par (holes ! i) = 3 \<longrightarrow> hs_fir (?new ! i) = None)
        \<and> (hole_par (holes ! i) \<noteq> 3 \<and> fir (hole_number (holes ! i)) = None \<longrightarrow>
              hs_fir (?new ! i) = Some False)
        \<and> (\<forall>b. hole_par (holes ! i) \<noteq> 3 \<and> fir (hole_number (holes ! i)) = Some (Some b) \<longrightarrow>
              hs_fir (?new ! i) = Some b)"
    by (auto simp: fir_of_def get_default_def py_bool_def)
  moreover have "length ?new = length holes" by simp
  ultimately show ?thesis using run rows by blast
qed

theorem save_card_fir_witness:
  "nat (rp_course_handicap sample_rp mod 18) \<le> length sample_course
   \<and> (\<exists>sm db' new.
        save_card_for_round_player sample_db sample_rp sample_course sample_gross sample_putts
          sample_fir = (Inr sm, db')
      \<and> db_hole_scores db' = new
      \<and> hs_fir (new ! 0) = Some True
      \<and> hs_fir (new ! 1) = Some False
      \<and> hs_fir (new ! 2) = None)"
proof -
  from save_card_fir [OF sample_card_ok, of sample_db sample_putts sample_fir]
  obtain sm db' new where
    run: "save_card_for_round_player sample_db sample_rp sample_course sample_gross sample_putts
          sample_fir = (Inr sm, db')"
    and rows: "db_hole_scores db' =
         filter (\<lambda>hs. hs_round_player_id hs \<noteq> rp_id sample_rp) (db_hole_scores sample_db) @ new"
    and each: "\<forall>i<length sample_course.
          hs_hole_number (new ! i) = hole_number (sample_course ! i)
        \<and> (hole_par (sample_course ! i) = 3 \<longrightarrow> hs_fir (new ! i) = None)
        \<and> (hole_par (sample_course ! i) \<noteq> 3 \<and> sample_fir (hole_number (sample_course ! i)) = None \<longrightarrow>
              hs_fir (new ! i) = Some False)
        \<and> (\<forall>b. hole_par (sample_course ! i) \<noteq> 3
                \<and> sample_fir (hole_number (sample_course ! i)) = Some (Some b) \<longrightarrow>
              hs_fir (new ! i) = Some b)"
    by blast
  have new: "db_hole_scores db' = new" using rows by (simp add: sample_db_def)
  from each [rule_format, of 0] each [rule_format, of 1] each [rule_format, of 2]
  have "hs_fir (new ! 0) = Some True \<and> hs_fir (new ! 1) = Some False \<and> hs_fir (new ! 2) = None"
    by (auto simp: sample_course_nth sample_fir_def)
  with run new sample_card_ok show ?thesis by blast
qed

text \<open>
  C8. When the card has a gross score for every hole and the course has at least
  \<open>course_handicap mod 18\<close> holes, the card is saved, with one row per hole in the order
  of the holes, and in every row: the stored gross strokes and putts are those of the
  card input; the stored GIR is null exactly when the putts are null; and when the putts
  are \<open>p\<close>, the stored GIR is the truth value of \<open>gross_strokes - p \<le> par - 2\<close>.
\<close>

theorem save_card_gir:
  assumes "\<forall>h\<in>set holes. gross (hole_number h) \<noteq> None"
      and "nat (rp_course_handicap rp mod 18) \<le> length holes"
  shows "\<exists>sm db' new.
       save_card_for_round_player db rp holes gross putts fir = (Inr sm, db')
     \<and> db_hole_scores db' =
         filter (\<lambda>hs. hs_round_player_id hs \<noteq> rp_id rp) (db_hole_scores db) @ new
     \<and> length new = length holes
     \<and> (\<forall>i<length holes.
          hs_hole_number (new ! i) = hole_number (holes ! i)
        \<and> Some (hs_gross_strokes (new ! i)) = gross (hole_number (holes ! i))
        \<and> hs_putts (new ! i) = get_default putts (hole_number (holes ! i)) None
        \<and> (hs_gir (new ! i) = None \<longleftrightarrow> hs_putts (new ! i) = None)
        \<and> (\<forall>p. hs_putts (new ! i) = Some p \<longrightarrow>
              hs_gir (new ! i) =
                Some (hs_gross_strokes (new ! i) - p \<le> hole_par (holes ! i) - 2)))"
proof -
  from save_card_rows [OF assms, of db putts fir]
  obtain sm db' received where
    run: "save_card_for_round_player db rp holes gross putts fir = (Inr sm, db')"
    and rows: "db_hole_scores db' =
         filter (\<lambda>hs. hs_round_player_id hs \<noteq> rp_id rp) (db_hole_scores db) @
         map (\<lambda>h. \<lparr>hs_round_player_id = rp_id rp, hs_hole_number = hole_number h,
               hs_gross_strokes = the (gross (hole_number h)),
               hs_putts = get_default putts (hole_number h) None,
               hs_fir = fir_of fir h,
               hs_gir = gir_of h (the (gross (hole_number h)))
                          (get_default putts (hole_number h) None),
               hs_net_strokes = Some (the (gross (hole_number h)) - the (received (hole_number h))),
               hs_stableford_points =
                 Some (stableford_points
                   (the (gross (hole_number h)) - the (received (hole_number h))) (hole_par h))\<rparr>)
           holes" (is "_ = _ @ ?new")
    by blast
  have "\<forall>i<length holes.
          hs_hole_number (?new ! i) = hole_number (holes ! i)
        \<and> Some (hs_gross_strokes (?new ! i)) = gross (hole_number (holes ! i))
        \<and> hs_putts (?new ! i) = get_default putts (hole_number (holes ! i)) None
        \<and> (hs_gir (?new ! i) = None \<longleftrightarrow> hs_putts (?new ! i) = None)
        \<and> (\<forall>p. hs_putts (?new ! i) = Some p \<longrightarrow>
              hs_gir (?new ! i) =
                Some (hs_gross_strokes (?new ! i) - p \<le> hole_par (holes ! i) - 2))"
    using assms(1) by (auto simp: gir_of_def split: option.splits)
  moreover have "length ?new = length holes" by simp
  ultimately show ?thesis using run rows by blast
qed

theorem save_card_gir_witness:
  "nat (rp_course_handicap sample_rp mod 18) \<le> length sample_course
   \<and> (\<exists>sm db' new.
        save_card_for_round_player sample_db sample_rp sample_course sample_gross sample_putts
          sample_fir = (Inr sm, db')
      \<and> db_hole_scores db' = new
      \<and> hs_putts (new ! 0) = Some 2 \<and> hs_gir (new ! 0) = Some True
      \<and> hs_putts (new ! 1) = None \<and> hs_gir (new ! 1) = None
      \<and> hs_putts (new ! 2) = Some 1 \<and> hs_gir (new ! 2) = Some False)"
proof -
  from save_card_gir [OF sample_card_ok, of sample_db sample_putts sample_fir]
  obtain sm db' new where
    run: "save_card_for_round_player sample_db sample_rp sample_course sample_gross sample_putts
          sample_fir = (Inr sm, db')"
    and rows: "db_hole_scores db' =
         filter (\<lambda>hs. hs_round_player_id hs \<noteq> rp_id sample_rp) (db_hole_scores sample_db) @ new"
    and each: "\<forall>i<length sample_course.
          hs_hole_number (new ! i) = hole_number (sample_course ! i)
        \<and> Some (hs_gross_strokes (new ! i)) = sample_gross (hole_number (sample_course ! i))
        \<and> hs_putts (new ! i) = get_default sample_putts (hole_number (sample_course ! i)) None
        \<and> (hs_gir (new ! i) = None \<longleftrightarrow> hs_putts (new ! i) = None)
        \<and> (\<forall>p. hs_putts (new ! i) = Some p \<longrightarrow>
              hs_gir (new ! i) =
                Some (hs_gross_strokes (new ! i) - p \<le> hole_par (sample_course ! i) - 2))"
    by blast
  have new: "db_hole_scores db' = new" using rows by (simp add: sample_db_def)
  from each [rule_format, of 0] each [rule_format, of 1] each [rule_format, of 2]
  have "hs_putts (new ! 0) = Some 2 \<and> hs_gir (new ! 0) = Some True
      \<and> hs_putts (new ! 1) = None \<and> hs_gir (new ! 1) = None
      \<and> hs_putts (new ! 2) = Some 1 \<and> hs_gir (new ! 2) = Some False"
    by (simp add: sample_course_nth get_default_def sample_putts_def)
  with run new sample_card_ok show ?thesis by blast
qed

subsection \<open>Round resolution\<close>

lemma py_max_Max:
  assumes "xs \<noteq> []"
  shows "py_max xs = Inr (Max (set xs))"
  using assms
proof (cases xs)
  case Nil
  with assms show ?thesis by simp
next
  case (Cons a list)
  then show ?thesis using Max.set_eq_fold [of a list] by (simp add: py_max_def)
qed

lemma find_update_first:
  assumes "\<And>x. P x \<Longrightarrow> P (f x)"
  shows "find P (update_first P f xs) = map_option f (find P xs)"
  using assms by (induction xs) auto

lemma filter_map_upd:
  assumes "\<And>x. P (g x) = P x"
  shows "filter P (map (\<lambda>x. if P x then g x else x) xs) = map g (filter P xs)"
  using assms by (induction xs) auto


lemma py_max_maximum:
  assumes "\<exists>rp\<in>set rps. rp_stableford_hcp_total rp = Some m"
    and "\<forall>rp\<in>set rps. \<forall>t. rp_stableford_hcp_total rp = Some t \<longrightarrow> t \<le> m"
  shows "py_max (List.map_filter rp_stableford_hcp_total rps) = Inr m"
proof -
  let ?ts = "List.map_filter rp_stableford_hcp_total rps"
  have set: "set ?ts = {t. \<exists>rp\<in>set rps. rp_stableford_hcp_total rp = Some t}"
    by (induction rps) (auto simp: map_filter_simps split: option.splits)
  have "m \<in> set ?ts" using assms(1) by (simp add: set)
  moreover have "\<forall>t\<in>set ?ts. t \<le> m" using assms(2) by (auto simp: set)
  ultimately have "Max (set ?ts) = m" by (intro Max_eqI) auto
  moreover have "?ts \<noteq> []" using \<open>m \<in> set ?ts\<close> by auto
  ultimately show ?thesis by (simp add: py_max_Max)
qed

lemma py_max_none:
  assumes "\<forall>rp\<in>set rps. rp_stableford_hcp_total rp = None"
  shows "py_max (List.map_filter rp_stableford_hcp_total rps) = Inl ValueError"
proof -
  have "List.map_filter rp_stableford_hcp_total rps = []"
    using assms by (induction rps) simp_all
  then show ?thesis by (simp add: py_max_def)
qed

lemma sample_rounds:
  "get_round (sample_round_db rps) 1 = Some sample_round"
  "get_round_players (sample_round_db four_players) 1 = four_players"
  "get_round_players (sample_round_db three_players) 1 = three_players"
  "get_round_players (sample_round_db unscored_players) 1 = unscored_players"
  by (simp_all add: get_round_def get_round_players_def sample_round_db_def sample_round_def
      four_players_def three_players_def unscored_players_def sample_participant_def)

lemma sample_ids: "str_int 22 = ''22''" "str_int 23 = ''23''"
  by code_simp+

text \<open>
  C9. For every round in which no participant has a non-null handicap-Stableford total
  (a round with no participant included), \<open>close_round_and_set_winner\<close> raises
  \<open>ValueError\<close> and the database is as it was before the call: the round's winner type
  and winner ids and every participant's result are unchanged.
\<close>

theorem close_round_no_scores:
  assumes "\<forall>rp\<in>set (get_round_players db round_id). rp_stableford_hcp_total rp = None"
  shows "close_round_and_set_winner db round_id = (Some ValueError, db)"
  using py_max_none [OF assms] by (simp add: close_round_and_set_winner_def Let_def)

theorem close_round_no_scores_witness:
  "close_round_and_set_winner (sample_round_db unscored_players) 1
     = (Some ValueError, sample_round_db unscored_players)"
proof -
  have h: "\<forall>rp\<in>set (get_round_players (sample_round_db unscored_players) 1).
       rp_stableford_hcp_total rp = None"
    by (simp add: sample_rounds) (simp add: unscored_players_def sample_participant_def)
  from close_round_no_scores [OF h] show ?thesis .
qed

text \<open>
  C3. Let the round exist, let its round players have distinct ids (\<open>id\<close> is the primary
  key) and let \<open>m\<close> be the maximum of the non-null handicap-Stableford totals of the
  round: some participant has total \<open>m\<close> and no participant has more. Then the
  resolution succeeds. If exactly one participant has total \<open>m\<close>, the round's winner type
  is \<open>single\<close>, the recorded winner ids are that participant's player id, that
  participant's result is \<open>win\<close> and every other participant's is \<open>loss\<close>. Otherwise more
  than one participant has total \<open>m\<close>, the winner type is \<open>tie\<close>, the recorded winner ids
  are the player ids of the tied participants in the order of the query, joined by
  commas, the tied participants' result is \<open>tie\<close> and every other participant's is
  \<open>loss\<close>.
\<close>

theorem close_round_winners:
  assumes rnd: "get_round db round_id = Some r"
    and pk: "distinct (map rp_id (get_round_players db round_id))"
    and attained: "\<exists>rp\<in>set (get_round_players db round_id). rp_stableford_hcp_total rp = Some m"
    and maximal: "\<forall>rp\<in>set (get_round_players db round_id). \<forall>t.
                    rp_stableford_hcp_total rp = Some t \<longrightarrow> t \<le> m"
  shows "\<exists>db' r'. close_round_and_set_winner db round_id = (None, db')
     \<and> get_round db' round_id = Some r'
     \<and> (let rps = get_round_players db round_id;
             tied = filter (\<lambda>rp. rp_stableford_hcp_total rp = Some m) rps
         in (length tied = 1 \<longrightarrow>
               r_winner_type r' = Some ''single''
             \<and> r_winner_player_ids r' = Some (str_int (rp_player_id (hd tied)))
             \<and> get_round_players db' round_id =
                 map (\<lambda>rp. rp\<lparr>rp_result :=
                        Some (if rp_stableford_hcp_total rp = Some m then ''win'' else ''loss'')\<rparr>)
                   rps)
          \<and> (length tied \<noteq> 1 \<longrightarrow>
               1 < length tied
             \<and> r_winner_type r' = Some ''tie''
             \<and> r_winner_player_ids r' =
                 Some (join '','' (map (\<lambda>rp. str_int (rp_player_id rp)) tied))
             \<and> get_round_players db' round_id =
                 map (\<lambda>rp. rp\<lparr>rp_result :=
                        Some (if rp_stableford_hcp_total rp = Some m then ''tie'' else ''loss'')\<rparr>)
                   rps))"
proof -
  define rps where "rps = get_round_players db round_id"
  define tied where "tied = filter (\<lambda>rp. rp_stableford_hcp_total rp = Some m) rps"
  have mx: "py_max (List.map_filter rp_stableford_hcp_total rps) = Inr m"
    unfolding rps_def by (rule py_max_maximum [OF attained maximal])
  have ne: "tied \<noteq> []"
    using attained unfolding tied_def rps_def by (auto simp: filter_empty_conv)
  have fnd: "find (\<lambda>x. r_id x = round_id) (db_rounds db) = Some r"
    using rnd by (simp add: get_round_def)
  show ?thesis
  proof (cases "length tied = 1")
    case True
    then obtain w where w: "tied = [w]" by (cases tied) auto
    have "w \<in> set tied" using w by simp
    then have w_in: "w \<in> set rps" "rp_stableford_hcp_total w = Some m"
      unfolding tied_def by simp_all
    have only: "rp_id rp = rp_id w \<longleftrightarrow> rp_stableford_hcp_total rp = Some m"
      if "rp \<in> set rps" for rp
    proof
      assume "rp_id rp = rp_id w"
      with that w_in(1) pk have "rp = w"
        unfolding rps_def by (metis distinct_map inj_on_def)
      then show "rp_stableford_hcp_total rp = Some m" using w_in(2) by simp
    next
      assume "rp_stableford_hcp_total rp = Some m"
      with that have "rp \<in> set tied" unfolding tied_def by simp
      then show "rp_id rp = rp_id w" using w by simp
    qed
    define db' where "db' =
       db\<lparr>db_rounds :=
             update_first (\<lambda>x. r_id x = round_id)
               (\<lambda>x. x\<lparr>r_winner_type := Some ''single'',
                      r_winner_player_ids := Some (str_int (rp_player_id (tied ! 0)))\<rparr>)
               (db_rounds db),
           db_round_players :=
             map (\<lambda>rp. if rp_round_id rp = round_id
                       then rp\<lparr>rp_result :=
                              Some (if rp_id rp = rp_id (tied ! 0) then ''win'' else ''loss'')\<rparr>
                       else rp)
               (db_round_players db)\<rparr>"
    have run: "close_round_and_set_winner db round_id = (None, db')"
      using mx rnd True
      by (simp add: close_round_and_set_winner_def Let_def rps_def [symmetric]
          tied_def [symmetric] db'_def)
    have r': "get_round db' round_id =
        Some (r\<lparr>r_winner_type := Some ''single'',
                r_winner_player_ids := Some (str_int (rp_player_id (tied ! 0)))\<rparr>)"
      unfolding get_round_def db'_def by (simp add: find_update_first fnd)
    have "get_round_players db' round_id =
        map (\<lambda>rp. rp\<lparr>rp_result :=
               Some (if rp_id rp = rp_id (tied ! 0) then ''win'' else ''loss'')\<rparr>) rps"
      unfolding get_round_players_def db'_def rps_def
      by (simp add: filter_map_upd)
    also have "\<dots> = map (\<lambda>rp. rp\<lparr>rp_result :=
               Some (if rp_stableford_hcp_total rp = Some m then ''win'' else ''loss'')\<rparr>) rps"
      by (rule map_cong) (simp_all add: only w)
    finally have rows: "get_round_players db' round_id =
        map (\<lambda>rp. rp\<lparr>rp_result :=
               Some (if rp_stableford_hcp_total rp = Some m then ''win'' else ''loss'')\<rparr>) rps" .
    show ?thesis
      using run r' rows True w
      by (simp add: Let_def rps_def [symmetric] tied_def [symmetric])
  next
    case False
    with ne have many: "1 < length tied" by (cases tied) auto
    have mem: "rp \<in> set tied \<longleftrightarrow> rp_stableford_hcp_total rp = Some m"
      if "rp \<in> set rps" for rp
      using that unfolding tied_def by simp
    define db' where "db' =
       db\<lparr>db_rounds :=
             update_first (\<lambda>x. r_id x = round_id)
               (\<lambda>x. x\<lparr>r_winner_type := Some ''tie'',
                      r_winner_player_ids :=
                        Some (join '','' (map (\<lambda>w. str_int (rp_player_id w)) tied))\<rparr>)
               (db_rounds db),
           db_round_players :=
             map (\<lambda>rp. if rp_round_id rp = round_id
                       then rp\<lparr>rp_result := Some (if rp \<in> set tied then ''tie'' else ''loss'')\<rparr>
                       else rp)
               (db_round_players db)\<rparr>"
    have run: "close_round_and_set_winner db round_id = (None, db')"
      using mx rnd False
      by (simp add: close_round_and_set_winner_def Let_def rps_def [symmetric]
          tied_def [symmetric] db'_def)
    have r': "get_round db' round_id =
        Some (r\<lparr>r_winner_type := Some ''tie'',
                r_winner_player_ids :=
                  Some (join '','' (map (\<lambda>w. str_int (rp_player_id w)) tied))\<rparr>)"
      unfolding get_round_def db'_def by (simp add: find_update_first fnd)
    have "get_round_players db' round_id =
        map (\<lambda>rp. rp\<lparr>rp_result := Some (if rp \<in> set tied then ''tie'' else ''loss'')\<rparr>) rps"
      unfolding get_round_players_def db'_def rps_def
      by (simp add: filter_map_upd)
    also have "\<dots> = map (\<lambda>rp. rp\<lparr>rp_result :=
               Some (if rp_stableford_hcp_total rp = Some m then ''tie'' else ''loss'')\<rparr>) rps"
      by (rule map_cong) (simp_all add: mem)
    finally have rows: "get_round_players db' round_id =
        map (\<lambda>rp. rp\<lparr>rp_result :=
               Some (if rp_stableford_hcp_total rp = Some m then ''tie'' else ''loss'')\<rparr>) rps" .
    show ?thesis
      using run r' rows False many
      by (simp add: Let_def rps_def [symmetric] tied_def [symmetric])
  qed
qed

theorem close_round_winners_witness:
  "(\<exists>db' r'. close_round_and_set_winner (sample_round_db four_players) 1 = (None, db')
      \<and> get_round db' 1 = Some r'
      \<and> r_winner_type r' = Some ''tie'' \<and> r_winner_player_ids r' = Some ''22,23''
      \<and> map rp_result (get_round_players db' 1)
          = [Some ''loss'', Some ''tie'', Some ''tie'', Some ''loss''])
   \<and> (\<exists>db' r'. close_round_and_set_winner (sample_round_db three_players) 1 = (None, db')
      \<and> get_round db' 1 = Some r'
      \<and> r_winner_type r' = Some ''single'' \<and> r_winner_player_ids r' = Some ''22''
      \<and> map rp_result (get_round_players db' 1)
          = [Some ''loss'', Some ''win'', Some ''loss''])"
proof -
  have four: "distinct (map rp_id (get_round_players (sample_round_db four_players) 1))"
    "\<exists>rp\<in>set (get_round_players (sample_round_db four_players) 1).
        rp_stableford_hcp_total rp = Some 15"
    "\<forall>rp\<in>set (get_round_players (sample_round_db four_players) 1). \<forall>t.
        rp_stableford_hcp_total rp = Some t \<longrightarrow> t \<le> 15"
    by (simp_all add: sample_rounds) (auto simp: four_players_def sample_participant_def)
  have three: "distinct (map rp_id (get_round_players (sample_round_db three_players) 1))"
    "\<exists>rp\<in>set (get_round_players (sample_round_db three_players) 1).
        rp_stableford_hcp_total rp = Some 15"
    "\<forall>rp\<in>set (get_round_players (sample_round_db three_players) 1). \<forall>t.
        rp_stableford_hcp_total rp = Some t \<longrightarrow> t \<le> 15"
    by (simp_all add: sample_rounds) (auto simp: three_players_def sample_participant_def)
  have A: "\<exists>db' r'. close_round_and_set_winner (sample_round_db four_players) 1 = (None, db')
      \<and> get_round db' 1 = Some r'
      \<and> r_winner_type r' = Some ''tie'' \<and> r_winner_player_ids r' = Some ''22,23''
      \<and> map rp_result (get_round_players db' 1)
          = [Some ''loss'', Some ''tie'', Some ''tie'', Some ''loss'']"
    using close_round_winners [OF sample_rounds(1) four]
    by (simp add: sample_rounds Let_def)
      (auto simp: four_players_def sample_participant_def sample_ids)
  have B: "\<exists>db' r'. close_round_and_set_winner (sample_round_db three_players) 1 = (None, db')
      \<and> get_round db' 1 = Some r'
      \<and> r_winner_type r' = Some ''single'' \<and> r_winner_player_ids r' = Some ''22''
      \<and> map rp_result (get_round_players db' 1)
          = [Some ''loss'', Some ''win'', Some ''loss'']"
    using close_round_winners [OF sample_rounds(1) three]
    by (simp add: sample_rounds Let_def)
      (auto simp: three_players_def sample_participant_def sample_ids)
  from A B show ?thesis by blast
qed

subsection \<open>League points of a round\<close>

lemma stats_get_modify:
  "stats_get (stats_modify k f stats) k' =
     (if k' = k then f (stats_get stats k) else stats_get stats k')"
  by (induction stats) (auto simp: stats_get_def)

lemma f1_base_update [simp]: "st_f1_points (base_update db r rp s) = st_f1_points s"
  by (simp add: base_update_def upd_stableford_def upd_scratch_def upd_net_def upd_gross_def
      upd_level_def upd_best_def upd_result_def upd_rounds_def upd_player_def Let_def
      split: option.splits)



lemma sort_key_first_le:
  assumes "x \<in> set xs"
  shows "f (sort_key f xs ! 0) \<le> f x"
proof -
  let ?ys = "sort_key f xs"
  from assms have "x \<in> set ?ys" by simp
  then have "\<exists>i<length ?ys. ?ys ! i = x" by (simp only: in_set_conv_nth)
  then obtain i where i: "i < length ?ys" "?ys ! i = x" by blast
  have "sorted (map f ?ys)" by (rule sorted_sort_key)
  then have "map f ?ys ! 0 \<le> map f ?ys ! i"
    using i(1) by (intro sorted_nth_mono) simp_all
  moreover have "0 < length ?ys" using i(1) by (cases ?ys) simp_all
  ultimately show ?thesis using i by (simp del: length_sort length_greater_0_conv)
qed

lemma sort_key_first_mem:
  assumes "xs \<noteq> []"
  shows "sort_key f xs ! 0 \<in> set xs"
proof -
  have "sort_key f xs ! 0 \<in> set (sort_key f xs)"
    using assms by (intro nth_mem) (simp add: length_greater_0_conv)
  then show ?thesis by simp
qed








subsection \<open>What the loop over the rounds accumulates\<close>

lemma map_filter_append:
  "List.map_filter f (xs @ ys) = List.map_filter f xs @ List.map_filter f ys"
  by (simp add: map_filter_def)

lemma keys_stats_modify: "fst ` set (stats_modify k f S) = insert k (fst ` set S)"
proof (induction S)
  case Nil
  then show ?case by simp
next
  case (Cons a S)
  obtain k' s where a: "a = (k', s)" by (cases a)
  show ?case
  proof (cases "k' = k")
    case True
    then show ?thesis by (simp add: a)
  next
    case False
    then show ?thesis using Cons.IH by (simp add: a insert_commute)
  qed
qed

lemma distinct_stats_modify:
  "distinct (map fst S) \<Longrightarrow> distinct (map fst (stats_modify k f S))"
proof (induction S)
  case Nil
  then show ?case by simp
next
  case (Cons a S)
  obtain k' s where a: "a = (k', s)" by (cases a)
  show ?case
  proof (cases "k' = k")
    case True
    with Cons.prems a show ?thesis by simp
  next
    case False
    have "k' \<notin> fst ` set (stats_modify k f S)"
      using Cons.prems a False by (simp add: keys_stats_modify)
    with Cons a False show ?thesis by simp
  qed
qed

lemma map_of_stats_get: "map_of S k = Some s \<Longrightarrow> stats_get S k = s"
  by (simp add: stats_get_def)

lemma upd_player_fields [simp]:
  "st_rounds (upd_player db rp s) = st_rounds s"
  "st_net_sum (upd_player db rp s) = st_net_sum s"
  "st_net_count (upd_player db rp s) = st_net_count s"
  "st_scratch_sum (upd_player db rp s) = st_scratch_sum s"
  "st_player (upd_player db rp s) = (if st_player s = None then player_of db rp else st_player s)"
  by (simp_all add: upd_player_def)

lemma upd_rounds_fields [simp]:
  "st_rounds (upd_rounds s) = st_rounds s + 1"
  "st_net_sum (upd_rounds s) = st_net_sum s"
  "st_net_count (upd_rounds s) = st_net_count s"
  "st_scratch_sum (upd_rounds s) = st_scratch_sum s"
  "st_player (upd_rounds s) = st_player s"
  by (simp_all add: upd_rounds_def)

lemma upd_result_fields [simp]:
  "st_rounds (upd_result rp s) = st_rounds s"
  "st_net_sum (upd_result rp s) = st_net_sum s"
  "st_net_count (upd_result rp s) = st_net_count s"
  "st_scratch_sum (upd_result rp s) = st_scratch_sum s"
  "st_player (upd_result rp s) = st_player s"
  by (simp_all add: upd_result_def)

lemma upd_best_fields [simp]:
  "st_rounds (upd_best g s) = st_rounds s"
  "st_net_sum (upd_best g s) = st_net_sum s"
  "st_net_count (upd_best g s) = st_net_count s"
  "st_scratch_sum (upd_best g s) = st_scratch_sum s"
  "st_player (upd_best g s) = st_player s"
  by (simp_all add: upd_best_def split: option.splits)

lemma upd_level_fields [simp]:
  "st_rounds (upd_level db r g s) = st_rounds s"
  "st_net_sum (upd_level db r g s) = st_net_sum s"
  "st_net_count (upd_level db r g s) = st_net_count s"
  "st_scratch_sum (upd_level db r g s) = st_scratch_sum s"
  "st_player (upd_level db r g s) = st_player s"
  by (simp_all add: upd_level_def Let_def split: option.splits)

lemma upd_gross_fields [simp]:
  "st_rounds (upd_gross db r rp s) = st_rounds s"
  "st_net_sum (upd_gross db r rp s) = st_net_sum s"
  "st_net_count (upd_gross db r rp s) = st_net_count s"
  "st_scratch_sum (upd_gross db r rp s) = st_scratch_sum s"
  "st_player (upd_gross db r rp s) = st_player s"
  by (simp_all add: upd_gross_def split: option.splits)

lemma upd_net_fields [simp]:
  "st_rounds (upd_net rp s) = st_rounds s"
  "st_net_sum (upd_net rp s) = st_net_sum s + (case rp_net_total rp of None \<Rightarrow> 0 | Some t \<Rightarrow> t)"
  "st_net_count (upd_net rp s) =
     st_net_count s + (case rp_net_total rp of None \<Rightarrow> 0 | Some t \<Rightarrow> 1)"
  "st_scratch_sum (upd_net rp s) = st_scratch_sum s"
  "st_player (upd_net rp s) = st_player s"
  by (simp_all add: upd_net_def map_filter_simps split: option.splits)

lemma upd_scratch_fields [simp]:
  "st_rounds (upd_scratch rp s) = st_rounds s"
  "st_net_sum (upd_scratch rp s) = st_net_sum s"
  "st_net_count (upd_scratch rp s) = st_net_count s"
  "st_scratch_sum (upd_scratch rp s) =
     st_scratch_sum s + (case rp_stableford_scratch_total rp of None \<Rightarrow> 0 | Some t \<Rightarrow> t)"
  "st_player (upd_scratch rp s) = st_player s"
  by (simp_all add: upd_scratch_def map_filter_simps split: option.splits)

lemma upd_stableford_fields [simp]:
  "st_rounds (upd_stableford rp s) = st_rounds s"
  "st_net_sum (upd_stableford rp s) = st_net_sum s"
  "st_net_count (upd_stableford rp s) = st_net_count s"
  "st_scratch_sum (upd_stableford rp s) = st_scratch_sum s"
  "st_player (upd_stableford rp s) = st_player s"
  by (simp_all add: upd_stableford_def split: option.splits)

lemma base_fields [simp]:
  "st_rounds (base_update db r rp s) = st_rounds s + 1"
  "st_net_sum (base_update db r rp s) = st_net_sum s + (case rp_net_total rp of None \<Rightarrow> 0 | Some t \<Rightarrow> t)"
  "st_net_count (base_update db r rp s) =
     st_net_count s + (case rp_net_total rp of None \<Rightarrow> 0 | Some t \<Rightarrow> 1)"
  "st_scratch_sum (base_update db r rp s) =
     st_scratch_sum s + (case rp_stableford_scratch_total rp of None \<Rightarrow> 0 | Some t \<Rightarrow> t)"
  "st_player (base_update db r rp s) =
     (if st_player s = None then player_of db rp else st_player s)"
  by (simp_all add: base_update_def)

lemma add_f1_fields [simp]:
  "st_rounds (add_f1 p s) = st_rounds s"
  "st_net_sum (add_f1 p s) = st_net_sum s"
  "st_net_count (add_f1 p s) = st_net_count s"
  "st_scratch_sum (add_f1 p s) = st_scratch_sum s"
  "st_player (add_f1 p s) = st_player s"
  by (simp_all add: add_f1_def)

lemma default_fields [simp]:
  "st_rounds default_stats = 0" "st_net_sum default_stats = 0" "st_net_count default_stats = 0"
  "st_scratch_sum default_stats = 0" "st_player default_stats = None"
  by (simp_all add: default_stats_def)


lemma fold_modify_additive:
  fixes F :: "player_stats \<Rightarrow> 'a::comm_monoid_add"
  assumes "\<And>rp s. F (g rp s) = F s + c rp"
  shows "F (stats_get (fold (\<lambda>rp. stats_modify (rp_player_id rp) (g rp)) rps S) k)
         = F (stats_get S k) + sum_list (map c (filter (\<lambda>rp. rp_player_id rp = k) rps))"
  by (induction rps arbitrary: S) (simp_all add: stats_get_modify assms add.assoc)

lemma keys_fold_modify:
  "fst ` set (fold (\<lambda>rp. stats_modify (rp_player_id rp) (g rp)) rps S)
   = fst ` set S \<union> rp_player_id ` set rps"
  by (induction rps arbitrary: S) (simp_all add: keys_stats_modify)

lemma distinct_fold_modify:
  "distinct (map fst S) \<Longrightarrow>
   distinct (map fst (fold (\<lambda>rp. stats_modify (rp_player_id rp) (g rp)) rps S))"
  by (induction rps arbitrary: S) (simp_all add: distinct_stats_modify)

lemma round_step_shape:
  obtains W p where
    "set W \<subseteq> set (filter (\<lambda>rp. rp_gross_total rp \<noteq> None) (round_players_of db r))"
    "round_step db r S =
         fold (\<lambda>rp. stats_modify (rp_player_id rp) (add_f1 p)) W
           (fold (\<lambda>rp. stats_modify (rp_player_id rp) (base_update db r rp))
              (filter (\<lambda>rp. rp_gross_total rp \<noteq> None) (round_players_of db r)) S)"
proof -
  define rps where "rps = filter (\<lambda>rp. rp_gross_total rp \<noteq> None) (round_players_of db r)"
  define valid where
    "valid = filter (\<lambda>rp. rp_stableford_hcp_total rp \<noteq> None) (sort_key f1_key rps)"
  let ?base = "fold (\<lambda>rp. stats_modify (rp_player_id rp) (base_update db r rp)) rps S"
  have sub: "set (filter Q valid) \<subseteq> set rps" for Q
    unfolding valid_def by auto
  consider "rps = []" | "rps \<noteq> []" "valid = []" | "rps \<noteq> []" "valid \<noteq> []" by blast
  then have "\<exists>W p. set W \<subseteq> set rps
     \<and> round_step db r S = fold (\<lambda>rp. stats_modify (rp_player_id rp) (add_f1 p)) W ?base"
  proof cases
    case 1
    then have "round_step db r S = S"
      by (simp add: round_step_def Let_def rps_def [symmetric] del: not_None_eq)
    with 1 have "set [] \<subseteq> set rps
      \<and> round_step db r S = fold (\<lambda>rp. stats_modify (rp_player_id rp) (add_f1 0)) [] ?base"
      by simp
    then show ?thesis by (intro exI)
  next
    case 2
    then have "round_step db r S = ?base"
      by (simp add: round_step_def Let_def rps_def [symmetric] valid_def [symmetric]
          del: not_None_eq)
    then have "set [] \<subseteq> set rps
      \<and> round_step db r S = fold (\<lambda>rp. stats_modify (rp_player_id rp) (add_f1 0)) [] ?base"
      by simp
    then show ?thesis by (intro exI)
  next
    case 3
    define W where
      "W = filter (\<lambda>rp. rp_stableford_hcp_total rp = rp_stableford_hcp_total (valid ! 0)) valid"
    define p :: rat where
      "p = (if W \<noteq> []
            then (if (of_int (int (length valid) - 1) :: rat) < 0 then 0
                  else of_int (int (length valid) - 1)) / of_nat (length W)
            else 0)"
    from 3 have "round_step db r S =
        fold (\<lambda>rp. stats_modify (rp_player_id rp) (add_f1 p)) W ?base"
      by (simp add: round_step_def Let_def rps_def [symmetric] valid_def [symmetric]
          W_def [symmetric] p_def del: not_None_eq)
    moreover have "set W \<subseteq> set rps" unfolding W_def by (rule sub)
    ultimately have "set W \<subseteq> set rps
      \<and> round_step db r S = fold (\<lambda>rp. stats_modify (rp_player_id rp) (add_f1 p)) W ?base"
      by simp
    then show ?thesis by (intro exI)
  qed
  then obtain W p where "set W \<subseteq> set rps"
    "round_step db r S = fold (\<lambda>rp. stats_modify (rp_player_id rp) (add_f1 p)) W ?base"
    by (elim exE conjE)
  then show ?thesis using that unfolding rps_def by blast
qed

lemma round_step_additive:
  fixes F :: "player_stats \<Rightarrow> 'a::comm_monoid_add"
  assumes base: "\<And>rp s. F (base_update db r rp s) = F s + c rp"
    and f1: "\<And>p s. F (add_f1 p s) = F s"
  shows "F (stats_get (round_step db r S) k)
         = F (stats_get S k)
           + sum_list (map c (filter (\<lambda>rp. rp_gross_total rp \<noteq> None \<and> rp_player_id rp = k)
                                (round_players_of db r)))"
proof -
  obtain W p where
    W: "set W \<subseteq> set (filter (\<lambda>rp. rp_gross_total rp \<noteq> None) (round_players_of db r))"
    and eq: "round_step db r S =
         fold (\<lambda>rp. stats_modify (rp_player_id rp) (add_f1 p)) W
           (fold (\<lambda>rp. stats_modify (rp_player_id rp) (base_update db r rp))
              (filter (\<lambda>rp. rp_gross_total rp \<noteq> None) (round_players_of db r)) S)"
    by (rule round_step_shape [of db r S])
  have award: "F (stats_get (fold (\<lambda>rp. stats_modify (rp_player_id rp) (add_f1 p)) W S') k)
      = F (stats_get S' k)" for S'
    using fold_modify_additive [of F "\<lambda>rp. add_f1 p" "\<lambda>rp. 0" W S' k] by (simp add: f1)
  show ?thesis
    unfolding eq award
    using fold_modify_additive [of F "base_update db r" c, OF base]
    by (simp del: not_None_eq)
qed

lemma rounds_additive:
  fixes F :: "player_stats \<Rightarrow> 'a::comm_monoid_add"
  assumes base: "\<And>r rp s. F (base_update db r rp s) = F s + c rp"
    and f1: "\<And>p s. F (add_f1 p s) = F s"
  shows "F (stats_get (fold (round_step db) rounds S) k)
         = F (stats_get S k) + sum_list (map c (spec_participations db rounds k))"
proof (induction rounds arbitrary: S)
  case Nil
  then show ?case by (simp add: spec_participations_def)
next
  case (Cons r rounds)
  show ?case
    using Cons.IH [of "round_step db r S"] round_step_additive [of F db r c S k, OF base f1]
    by (simp add: spec_participations_def add.assoc del: not_None_eq)
qed

lemma keys_round_step:
  "fst ` set (round_step db r S)
   = fst ` set S
     \<union> rp_player_id ` set (filter (\<lambda>rp. rp_gross_total rp \<noteq> None) (round_players_of db r))"
proof -
  obtain W p where
    W: "set W \<subseteq> set (filter (\<lambda>rp. rp_gross_total rp \<noteq> None) (round_players_of db r))"
    and eq: "round_step db r S =
         fold (\<lambda>rp. stats_modify (rp_player_id rp) (add_f1 p)) W
           (fold (\<lambda>rp. stats_modify (rp_player_id rp) (base_update db r rp))
              (filter (\<lambda>rp. rp_gross_total rp \<noteq> None) (round_players_of db r)) S)"
    by (rule round_step_shape [of db r S])
  show ?thesis unfolding eq keys_fold_modify using W by blast
qed

lemma distinct_round_step:
  assumes "distinct (map fst S)"
  shows "distinct (map fst (round_step db r S))"
proof -
  obtain W p where
    W: "set W \<subseteq> set (filter (\<lambda>rp. rp_gross_total rp \<noteq> None) (round_players_of db r))"
    and eq: "round_step db r S =
         fold (\<lambda>rp. stats_modify (rp_player_id rp) (add_f1 p)) W
           (fold (\<lambda>rp. stats_modify (rp_player_id rp) (base_update db r rp))
              (filter (\<lambda>rp. rp_gross_total rp \<noteq> None) (round_players_of db r)) S)"
    by (rule round_step_shape [of db r S])
  show ?thesis unfolding eq by (intro distinct_fold_modify assms)
qed

lemma keys_rounds:
  "fst ` set (fold (round_step db) rounds S)
   = fst ` set S \<union> {k. spec_participations db rounds k \<noteq> []}"
proof (induction rounds arbitrary: S)
  case Nil
  then show ?case by (simp add: spec_participations_def)
next
  case (Cons r rounds)
  have "{k. spec_participations db (r # rounds) k \<noteq> []}
      = rp_player_id ` set (filter (\<lambda>rp. rp_gross_total rp \<noteq> None) (round_players_of db r))
        \<union> {k. spec_participations db rounds k \<noteq> []}"
    by (auto simp: spec_participations_def filter_empty_conv)
  then show ?case
    using Cons.IH [of "round_step db r S"] by (simp add: keys_round_step Un_assoc del: not_None_eq)
qed

lemma distinct_rounds:
  "distinct (map fst S) \<Longrightarrow> distinct (map fst (fold (round_step db) rounds S))"
  by (induction rounds arbitrary: S) (simp_all add: distinct_round_step)

lemma linked_modify_base:
  assumes "players_linked db S"
  shows "players_linked db (stats_modify (rp_player_id rp) (base_update db r rp) S)"
  unfolding players_linked_def
proof
  fix k
  assume k: "k \<in> fst ` set (stats_modify (rp_player_id rp) (base_update db r rp) S)"
  show "st_player (stats_get (stats_modify (rp_player_id rp) (base_update db r rp) S) k)
        = find (\<lambda>p. pl_id p = k) (db_players db)"
  proof (cases "k = rp_player_id rp")
    case False
    with k have "k \<in> fst ` set S" by (simp add: keys_stats_modify)
    with assms False show ?thesis by (auto simp: players_linked_def stats_get_modify)
  next
    case True
    show ?thesis
    proof (cases "k \<in> fst ` set S")
      case True
      with assms \<open>k = rp_player_id rp\<close> show ?thesis
        by (auto simp: players_linked_def stats_get_modify player_of_def)
    next
      case False
      then have "map_of S k = None" by (simp add: map_of_eq_None_iff)
      then have "stats_get S k = default_stats" by (simp add: stats_get_def)
      with \<open>k = rp_player_id rp\<close> show ?thesis
        by (simp add: stats_get_modify player_of_def)
    qed
  qed
qed

lemma linked_modify_award:
  assumes "players_linked db S" "k \<in> fst ` set S"
  shows "players_linked db (stats_modify k (add_f1 p) S)"
  using assms
  by (auto simp: players_linked_def stats_get_modify keys_stats_modify)

lemma linked_fold_base:
  "players_linked db S \<Longrightarrow>
   players_linked db (fold (\<lambda>rp. stats_modify (rp_player_id rp) (base_update db r rp)) rps S)"
  by (induction rps arbitrary: S) (simp_all add: linked_modify_base)

lemma linked_fold_award:
  "players_linked db S \<Longrightarrow> rp_player_id ` set W \<subseteq> fst ` set S \<Longrightarrow>
   players_linked db (fold (\<lambda>rp. stats_modify (rp_player_id rp) (add_f1 p)) W S)"
proof (induction W arbitrary: S)
  case Nil
  then show ?case by simp
next
  case (Cons w W)
  have "players_linked db (stats_modify (rp_player_id w) (add_f1 p) S)"
    using Cons.prems by (intro linked_modify_award) simp_all
  moreover have "rp_player_id ` set W \<subseteq> fst ` set (stats_modify (rp_player_id w) (add_f1 p) S)"
    using Cons.prems by (auto simp: keys_stats_modify)
  ultimately show ?case using Cons.IH by simp
qed

lemma linked_round_step:
  assumes "players_linked db S"
  shows "players_linked db (round_step db r S)"
proof -
  obtain W p where
    W: "set W \<subseteq> set (filter (\<lambda>rp. rp_gross_total rp \<noteq> None) (round_players_of db r))"
    and eq: "round_step db r S =
         fold (\<lambda>rp. stats_modify (rp_player_id rp) (add_f1 p)) W
           (fold (\<lambda>rp. stats_modify (rp_player_id rp) (base_update db r rp))
              (filter (\<lambda>rp. rp_gross_total rp \<noteq> None) (round_players_of db r)) S)"
    by (rule round_step_shape [of db r S])
  show ?thesis
    unfolding eq
  proof (intro linked_fold_award linked_fold_base assms)
    show "rp_player_id ` set W
      \<subseteq> fst ` set (fold (\<lambda>rp. stats_modify (rp_player_id rp) (base_update db r rp))
              (filter (\<lambda>rp. rp_gross_total rp \<noteq> None) (round_players_of db r)) S)"
      unfolding keys_fold_modify using W by blast
  qed
qed

lemma linked_rounds:
  "players_linked db S \<Longrightarrow> players_linked db (fold (round_step db) rounds S)"
  by (induction rounds arbitrary: S) (simp_all add: linked_round_step)

lemma sum_list_map_filter_single:
  "(\<Sum>x\<leftarrow>xs. case f x of None \<Rightarrow> 0 | Some t \<Rightarrow> t) = sum_list (List.map_filter f xs)"
  by (induction xs) (simp_all add: map_filter_simps split: option.splits)

lemma length_map_filter_single:
  "(\<Sum>x\<leftarrow>xs. case f x of None \<Rightarrow> 0 | Some t \<Rightarrow> 1) = int (length (List.map_filter f xs))"
  by (induction xs) (simp_all add: map_filter_simps split: option.splits)

lemma final_stats:
  assumes "(k, s) \<in> set (fold (round_step db) rounds [])"
  shows "st_player s = find (\<lambda>p. pl_id p = k) (db_players db)"
    and "st_rounds s = spec_rounds_played db rounds k"
    and "st_net_sum s = sum_list (spec_net_totals db rounds k)"
    and "st_net_count s = int (length (spec_net_totals db rounds k))"
    and "st_scratch_sum s = spec_scratch_sum db rounds k"
    and "spec_participations db rounds k \<noteq> []"
proof -
  let ?S = "fold (round_step db) rounds []"
  have "distinct (map fst ?S)" by (rule distinct_rounds) simp
  with assms have "map_of ?S k = Some s" by simp
  then have get: "stats_get ?S k = s" by (rule map_of_stats_get)
  have dflt: "stats_get [] k = default_stats" by (simp add: stats_get_def)
  have key: "k \<in> fst ` set ?S" using assms by force
  have "players_linked db ?S" by (rule linked_rounds) (simp add: players_linked_def)
  with key get show "st_player s = find (\<lambda>p. pl_id p = k) (db_players db)"
    by (auto simp: players_linked_def)
  show "st_rounds s = spec_rounds_played db rounds k"
    using rounds_additive [of st_rounds db "\<lambda>rp. 1" rounds "[]" k]
    by (simp add: get dflt spec_rounds_played_def sum_list_triv)
  show "st_net_sum s = sum_list (spec_net_totals db rounds k)"
    using rounds_additive [of st_net_sum db
        "\<lambda>rp. (case rp_net_total rp of None \<Rightarrow> 0 | Some t \<Rightarrow> t)" rounds "[]" k]
    by (simp add: get dflt spec_net_totals_def sum_list_map_filter_single)
  show "st_net_count s = int (length (spec_net_totals db rounds k))"
    using rounds_additive [of st_net_count db
        "\<lambda>rp. (case rp_net_total rp of None \<Rightarrow> 0 | Some t \<Rightarrow> 1)" rounds "[]" k]
    by (simp add: get dflt spec_net_totals_def length_map_filter_single)
  show "st_scratch_sum s = spec_scratch_sum db rounds k"
    using rounds_additive [of st_scratch_sum db
        "\<lambda>rp. (case rp_stableford_scratch_total rp of None \<Rightarrow> 0 | Some t \<Rightarrow> t)" rounds "[]" k]
    by (simp add: get dflt spec_scratch_sum_def sum_list_map_filter_single)
  show "spec_participations db rounds k \<noteq> []"
    using key by (simp add: keys_rounds)
qed

lemma final_keys:
  "fst ` set (fold (round_step db) rounds []) = {k. spec_participations db rounds k \<noteq> []}"
  by (simp add: keys_rounds)

subsection \<open>The tables and the champions\<close>

lemma map_raise_ok:
  assumes "\<forall>x\<in>set xs. f x = Inr (g x)"
  shows "map_raise f xs = Inr (map g xs)"
  using assms by (induction xs) simp_all

lemma insort_key_decorated:
  "insort_key fst (g x, x) (map (\<lambda>y. (g y, y)) ys) = map (\<lambda>y. (g y, y)) (insort_key g x ys)"
  by (induction ys) simp_all

lemma sort_key_decorated:
  "sort_key fst (map (\<lambda>y. (g y, y)) xs) = map (\<lambda>y. (g y, y)) (sort_key g xs)"
  by (induction xs) (simp_all add: insort_key_decorated)

lemma py_sorted_ok:
  assumes "\<forall>x\<in>set xs. key x = Inr (g x)"
  shows "py_sorted key xs = Inr (sort_key g xs)"
proof -
  have "zip (map g xs) xs = map (\<lambda>y. (g y, y)) xs"
    by (induction xs) simp_all
  then show ?thesis
    by (simp add: py_sorted_def map_raise_ok [OF assms] sort_key_decorated comp_def)
qed

lemma keys_ok:
  "mr_player row \<noteq> None \<Longrightarrow> main_key row = Inr (main_key_of row)"
  "nr_player nrow \<noteq> None \<Longrightarrow> net_key nrow = Inr (net_key_of nrow)"
  "sr_player srow \<noteq> None \<Longrightarrow> scratch_key srow = Inr (scratch_key_of srow)"
  "tr_player trow \<noteq> None \<Longrightarrow> table_key trow = Inr (table_key_of trow)"
  by (auto simp: main_key_def net_key_def scratch_key_def table_key_def name_of_def
      main_key_of_def net_key_of_def scratch_key_of_def table_key_of_def)

lemma row_players [simp]:
  "mr_player (main_row_of s) = st_player s"
  "nr_player (net_row_of s) = st_player s"
  "sr_player (scratch_row_of s) = st_player s"
  "tr_player (table_row_of s) = st_player s"
  by (simp_all add: main_row_of_def net_row_of_def scratch_row_of_def table_row_of_def)

lemma champions_players:
  "set (main_champions ms) \<subseteq> mr_player ` set ms"
  "set (net_champions ns) \<subseteq> nr_player ` set ns"
  "set (scratch_champions ss) \<subseteq> sr_player ` set ss"
  by (auto simp: main_champions_def net_champions_def scratch_champions_def Let_def
      split: list.splits)

lemma ids_ok:
  assumes "\<forall>p\<in>set ps. p \<noteq> None"
  shows "map_raise id_of ps = Inr (map (\<lambda>p. pl_id (the p)) ps)"
  by (rule map_raise_ok) (use assms in \<open>auto simp: id_of_def\<close>)

lemma compute_league_standings_ok:
  assumes present: "\<forall>(k, s)\<in>set (fold (round_step db) rounds []). st_player s \<noteq> None"
  shows "\<exists>res. compute_league_standings db league rounds = Inr res
     \<and> sd_net res =
         sort_key net_key_of
           (map (\<lambda>(k, s). net_row_of s)
             (filter (\<lambda>(k, s). st_net_count s > 0) (fold (round_step db) rounds [])))
     \<and> sd_scratch res =
         sort_key scratch_key_of
           (map (\<lambda>(k, s). scratch_row_of s)
             (filter (\<lambda>(k, s). st_scratch_sum s > 0) (fold (round_step db) rounds [])))
     \<and> net_players (sd_champions res) =
         (if is_closed league
          then map (\<lambda>p. pl_id (the p)) (net_champions (sd_net res)) else [])
     \<and> scratch_players (sd_champions res) =
         (if is_closed league
          then map (\<lambda>p. pl_id (the p)) (scratch_champions (sd_scratch res)) else [])"
proof -
  define S where "S = fold (round_step db) rounds []"
  define ms where "ms = map (\<lambda>(k, s). main_row_of s) S"
  define ns where "ns = map (\<lambda>(k, s). net_row_of s) (filter (\<lambda>(k, s). st_net_count s > 0) S)"
  define ss where
    "ss = map (\<lambda>(k, s). scratch_row_of s) (filter (\<lambda>(k, s). st_scratch_sum s > 0) S)"
  define ts where "ts = map (\<lambda>(k, s). table_row_of s) S"
  have pm: "\<forall>row\<in>set ms. mr_player row \<noteq> None"
    and pn: "\<forall>row\<in>set ns. nr_player row \<noteq> None"
    and ps: "\<forall>row\<in>set ss. sr_player row \<noteq> None"
    and pt: "\<forall>row\<in>set ts. tr_player row \<noteq> None"
    using present unfolding ms_def ns_def ss_def ts_def S_def [symmetric] by auto
  have sm: "py_sorted main_key ms = Inr (sort_key main_key_of ms)"
    by (rule py_sorted_ok) (use pm in \<open>simp add: keys_ok\<close>)
  have sn: "py_sorted net_key ns = Inr (sort_key net_key_of ns)"
    by (rule py_sorted_ok) (use pn in \<open>simp add: keys_ok\<close>)
  have sc: "py_sorted scratch_key ss = Inr (sort_key scratch_key_of ss)"
    by (rule py_sorted_ok) (use ps in \<open>simp add: keys_ok\<close>)
  have st: "py_sorted table_key ts = Inr (sort_key table_key_of ts)"
    by (rule py_sorted_ok) (use pt in \<open>simp add: keys_ok\<close>)
  define mc where
    "mc = (if is_closed league then main_champions (sort_key main_key_of ms) else [])"
  define nc where
    "nc = (if is_closed league then net_champions (sort_key net_key_of ns) else [])"
  define sc' where
    "sc' = (if is_closed league then scratch_champions (sort_key scratch_key_of ss) else [])"
  have "\<forall>p\<in>set mc. p \<noteq> None"
    using champions_players(1) [of "sort_key main_key_of ms"] pm
    unfolding mc_def by (auto split: if_splits)
  then have im: "map_raise id_of mc = Inr (map (\<lambda>p. pl_id (the p)) mc)" by (rule ids_ok)
  have "\<forall>p\<in>set nc. p \<noteq> None"
    using champions_players(2) [of "sort_key net_key_of ns"] pn
    unfolding nc_def by (auto split: if_splits)
  then have inn: "map_raise id_of nc = Inr (map (\<lambda>p. pl_id (the p)) nc)" by (rule ids_ok)
  have "\<forall>p\<in>set sc'. p \<noteq> None"
    using champions_players(3) [of "sort_key scratch_key_of ss"] ps
    unfolding sc'_def by (auto split: if_splits)
  then have isc: "map_raise id_of sc' = Inr (map (\<lambda>p. pl_id (the p)) sc')" by (rule ids_ok)
  have "compute_league_standings db league rounds =
      Inr \<lparr>sd_main = sort_key main_key_of ms, sd_net = sort_key net_key_of ns,
           sd_scratch = sort_key scratch_key_of ss,
           sd_players_table = sort_key table_key_of ts,
           sd_champions =
             \<lparr>main_players = map (\<lambda>p. pl_id (the p)) mc,
              net_players = map (\<lambda>p. pl_id (the p)) nc,
              scratch_players = map (\<lambda>p. pl_id (the p)) sc'\<rparr>\<rparr>"
    unfolding compute_league_standings_def Let_def S_def [symmetric] ms_def [symmetric]
      ns_def [symmetric] ss_def [symmetric] ts_def [symmetric]
    by (simp add: sm sn sc st mc_def [symmetric] nc_def [symmetric] sc'_def [symmetric] im inn isc)
  then show ?thesis
    unfolding ns_def ss_def S_def nc_def sc'_def by simp
qed


lemma entry_player:
  assumes fk: "\<forall>r\<in>set rounds. \<forall>rp\<in>set (round_players_of db r).
                 rp_gross_total rp \<noteq> None \<longrightarrow> player_of db rp \<noteq> None"
    and entry: "(k, s) \<in> set (fold (round_step db) rounds [])"
  shows "\<exists>p. st_player s = Some p \<and> pl_id p = k"
proof -
  from final_stats(6) [OF entry] obtain rp where "rp \<in> set (spec_participations db rounds k)"
    by (cases "spec_participations db rounds k") auto
  then obtain r where r: "r \<in> set rounds" "rp \<in> set (round_players_of db r)"
    "rp_gross_total rp \<noteq> None" "rp_player_id rp = k"
    by (auto simp: spec_participations_def)
  with fk have "player_of db rp \<noteq> None" by blast
  then obtain p where "find (\<lambda>p. pl_id p = k) (db_players db) = Some p"
    using r(4) by (auto simp: player_of_def)
  moreover from this have "pl_id p = k" by (auto simp: find_Some_iff)
  ultimately show ?thesis using final_stats(1) [OF entry] by simp
qed

lemma hd_sorted_filter_le:
  assumes "x \<in> set xs" "P x"
  shows "filter P (sort_key f xs) \<noteq> []"
    and "f (hd (filter P (sort_key f xs))) \<le> f x"
    and "hd (filter P (sort_key f xs)) \<in> set xs"
    and "P (hd (filter P (sort_key f xs)))"
proof -
  let ?ys = "filter P xs"
  have eq: "filter P (sort_key f xs) = sort_key f ?ys" by (simp add: filter_sort)
  have x: "x \<in> set ?ys" using assms by simp
  have ne: "?ys \<noteq> []" using assms by (auto simp: filter_empty_conv)
  then have sne: "sort_key f ?ys \<noteq> []" by (metis length_sort length_0_conv)
  show "filter P (sort_key f xs) \<noteq> []" unfolding eq by (rule sne)
  have hd0: "hd (sort_key f ?ys) = sort_key f ?ys ! 0" using sne by (simp add: hd_conv_nth)
  show "f (hd (filter P (sort_key f xs))) \<le> f x"
    unfolding eq hd0 by (rule sort_key_first_le [OF x])
  have "sort_key f ?ys ! 0 \<in> set ?ys" by (rule sort_key_first_mem [OF ne])
  then show "hd (filter P (sort_key f xs)) \<in> set xs" "P (hd (filter P (sort_key f xs)))"
    unfolding eq hd0 by simp_all
qed

lemma league_fk:
  "\<forall>r\<in>set five_rounds. \<forall>rp\<in>set (round_players_of league_db r).
      rp_gross_total rp \<noteq> None \<longrightarrow> player_of league_db rp \<noteq> None"
  "\<forall>r\<in>set four_rounds. \<forall>rp\<in>set (round_players_of league_db r).
      rp_gross_total rp \<noteq> None \<longrightarrow> player_of league_db rp \<noteq> None"
  by code_simp+

lemma league_closed: "is_closed sample_league"
  by (simp add: is_closed_def sample_league_def)

lemma five_parts:
  "spec_participations league_db five_rounds q =
     (if q = 21 then [league_entry 1 1 21 70 20, league_entry 4 2 21 72 19,
                      league_entry 7 3 21 71 20, league_entry 10 4 21 69 22,
                      league_entry 13 5 21 73 17]
      else if q = 22 then [league_entry 2 1 22 71 18, league_entry 5 2 22 71 18,
                           league_entry 8 3 22 71 21, league_entry 11 4 22 71 18,
                           league_entry 14 5 22 71 18]
      else if q = 23 then [league_entry 3 1 23 60 0, league_entry 6 2 23 60 0,
                           league_entry 9 3 23 60 0, league_entry 12 4 23 60 0]
      else [])"
  by (simp add: spec_participations_def round_players_of_def league_db_def league_round_def
      league_entry_def five_rounds_def)

lemma four_parts:
  "spec_participations league_db four_rounds q =
     (if q = 21 then [league_entry 1 1 21 70 20, league_entry 4 2 21 72 19,
                      league_entry 7 3 21 71 20, league_entry 10 4 21 69 22]
      else if q = 22 then [league_entry 2 1 22 71 18, league_entry 5 2 22 71 18,
                           league_entry 8 3 22 71 21, league_entry 11 4 22 71 18]
      else if q = 23 then [league_entry 3 1 23 60 0, league_entry 6 2 23 60 0,
                           league_entry 9 3 23 60 0, league_entry 12 4 23 60 0]
      else [])"
  by (simp add: spec_participations_def round_players_of_def league_db_def league_round_def
      league_entry_def four_rounds_def)

lemma five_eligible:
  "spec_net_eligible league_db five_rounds q \<longleftrightarrow> q = 21 \<or> q = 22"
  "spec_net_eligible league_db five_rounds q \<Longrightarrow> spec_average_net league_db five_rounds q = 71"
  by (auto simp: spec_net_eligible_def spec_rounds_played_def spec_net_totals_def spec_average_net_def five_parts
      league_entry_def map_filter_simps split: if_splits)

lemma four_played: "spec_rounds_played league_db four_rounds q < 5"
  by (simp add: spec_rounds_played_def four_parts)

lemma duffers_fk:
  "\<forall>r\<in>set [league_round 1]. \<forall>rp\<in>set (round_players_of duffers_db r).
      rp_gross_total rp \<noteq> None \<longrightarrow> player_of duffers_db rp \<noteq> None"
  by code_simp

lemma duffers_scratch: "spec_scratch_sum duffers_db [league_round 1] q = 0"
  by (simp add: spec_scratch_sum_def spec_participations_def round_players_of_def duffers_db_def
      league_round_def league_entry_def map_filter_simps)

lemma five_scratch: "spec_scratch_sum league_db five_rounds 23 = 0"
  by (simp add: spec_scratch_sum_def five_parts league_entry_def map_filter_simps)

text \<open>
  C6. For every closed league in which the player of every counted participation
  exists (the foreign key \<open>player_id\<close> resolves; otherwise the function raises), the
  standings are computed and the net champions are exactly the players with at least 5
  rounds played (and a net total to average) whose average net is the minimum among
  those players: ties give co-champions. If no player has 5 rounds played, the list of
  net champions is empty, whatever the averages of the players with fewer rounds.
\<close>

theorem net_champions_minimum:
  assumes closed: "is_closed league"
    and fk: "\<forall>r\<in>set rounds. \<forall>rp\<in>set (round_players_of db r).
                 rp_gross_total rp \<noteq> None \<longrightarrow> player_of db rp \<noteq> None"
  shows "\<exists>res. compute_league_standings db league rounds = Inr res
     \<and> (\<forall>pid. pid \<in> set (net_players (sd_champions res)) \<longleftrightarrow>
            spec_net_eligible db rounds pid
          \<and> (\<forall>q. spec_net_eligible db rounds q \<longrightarrow>
                 spec_average_net db rounds pid \<le> spec_average_net db rounds q))
     \<and> ((\<forall>pid. spec_rounds_played db rounds pid < 5) \<longrightarrow> net_players (sd_champions res) = [])"
proof -
  define S where "S = fold (round_step db) rounds []"
  define ns0 where
    "ns0 = map (\<lambda>(k, s). net_row_of s) (filter (\<lambda>(k, s). st_net_count s > 0) S)"
  define el where "el = filter (\<lambda>row. nr_rounds row \<ge> 5) (sort_key net_key_of ns0)"
  define rid where "rid = (\<lambda>row :: net_row. pl_id (the (nr_player row)))"
  have present: "\<forall>(k, s)\<in>set (fold (round_step db) rounds []). st_player s \<noteq> None"
    using entry_player [OF fk] by fastforce
  from compute_league_standings_ok [OF present, of league] closed
  obtain res where res: "compute_league_standings db league rounds = Inr res"
    and champs: "net_players (sd_champions res)
        = map (\<lambda>p. pl_id (the p)) (net_champions (sort_key net_key_of ns0))"
    unfolding ns0_def S_def by auto
  have row_of: "\<exists>k. rid row = k \<and> nr_rounds row = spec_rounds_played db rounds k
        \<and> nr_avg_net row = spec_average_net db rounds k \<and> spec_net_totals db rounds k \<noteq> []"
    if "row \<in> set ns0" for row
  proof -
    from that obtain k s where ks: "(k, s) \<in> set S" "st_net_count s > 0" "row = net_row_of s"
      unfolding ns0_def by auto
    from entry_player [OF fk ks(1) [unfolded S_def]]
    obtain p where p: "st_player s = Some p" "pl_id p = k" by blast
    have "rid row = k" using p ks(3) by (simp add: rid_def)
    moreover have "nr_rounds row = spec_rounds_played db rounds k"
      using final_stats(2) [OF ks(1) [unfolded S_def]] ks(3) by (simp add: net_row_of_def)
    moreover have "nr_avg_net row = spec_average_net db rounds k"
      using final_stats(3,4) [OF ks(1) [unfolded S_def]] ks(3)
      by (simp add: net_row_of_def spec_average_net_def)
    moreover have "spec_net_totals db rounds k \<noteq> []"
      using final_stats(4) [OF ks(1) [unfolded S_def]] ks(2) by auto
    ultimately show ?thesis by blast
  qed
  have row_for: "\<exists>row\<in>set ns0. rid row = k \<and> nr_rounds row = spec_rounds_played db rounds k
        \<and> nr_avg_net row = spec_average_net db rounds k"
    if "spec_net_totals db rounds k \<noteq> []" for k
  proof -
    from that have "spec_participations db rounds k \<noteq> []"
      by (auto simp: spec_net_totals_def)
    then have "k \<in> fst ` set S" unfolding S_def by (simp add: final_keys)
    then obtain s where ks: "(k, s) \<in> set S" by force
    have cnt: "st_net_count s > 0"
      using final_stats(4) [OF ks [unfolded S_def]] that by simp
    then have "net_row_of s \<in> set ns0" using ks unfolding ns0_def by force
    from row_of [OF this] obtain k' where k': "rid (net_row_of s) = k'"
      "nr_rounds (net_row_of s) = spec_rounds_played db rounds k'"
      "nr_avg_net (net_row_of s) = spec_average_net db rounds k'" by blast
    from entry_player [OF fk ks [unfolded S_def]]
    have "rid (net_row_of s) = k" by (auto simp: rid_def)
    with k' \<open>net_row_of s \<in> set ns0\<close> show ?thesis by auto
  qed
  have el_set: "set el = {row \<in> set ns0. nr_rounds row \<ge> 5}"
    unfolding el_def by auto
  have champs': "set (net_players (sd_champions res)) =
      (if el = [] then {} else rid ` {row \<in> set el. nr_avg_net row = nr_avg_net (hd el)})"
    unfolding champs net_champions_def Let_def el_def [symmetric]
    by (cases el) (auto simp: rid_def)
  have el_row: "\<exists>row\<in>set el. rid row = k \<and> nr_avg_net row = spec_average_net db rounds k"
    if "spec_net_eligible db rounds k" for k
    using row_for [of k] that unfolding spec_net_eligible_def el_set by auto
  have row_el: "spec_net_eligible db rounds (rid row) \<and> nr_avg_net row = spec_average_net db rounds (rid row)"
    if "row \<in> set el" for row
    using row_of [of row] that unfolding spec_net_eligible_def el_set by auto
  have hd_min: "nr_avg_net (hd el) \<le> nr_avg_net row" "hd el \<in> set el" if "row \<in> set el" for row
  proof -
    from that have row: "row \<in> set ns0" "nr_rounds row \<ge> 5" unfolding el_set by auto
    have "net_key_of (hd el) \<le> net_key_of row"
      unfolding el_def
      by (rule hd_sorted_filter_le(2) [of row ns0 "\<lambda>row. nr_rounds row \<ge> 5" net_key_of])
        (use row in simp_all)
    then show "nr_avg_net (hd el) \<le> nr_avg_net row"
      by (auto simp: net_key_of_def less_eq_prod_def)
    show "hd el \<in> set el"
      using hd_sorted_filter_le(1) [of row ns0 "\<lambda>row. nr_rounds row \<ge> 5" net_key_of] row
      unfolding el_def [symmetric] by simp
  qed
  have iff: "pid \<in> set (net_players (sd_champions res)) \<longleftrightarrow>
            spec_net_eligible db rounds pid
          \<and> (\<forall>q. spec_net_eligible db rounds q \<longrightarrow>
                 spec_average_net db rounds pid \<le> spec_average_net db rounds q)" for pid
  proof
    assume "pid \<in> set (net_players (sd_champions res))"
    then obtain row where row: "row \<in> set el" "nr_avg_net row = nr_avg_net (hd el)" "rid row = pid"
      unfolding champs' by (auto split: if_splits)
    have "spec_average_net db rounds pid \<le> spec_average_net db rounds q" if "spec_net_eligible db rounds q" for q
    proof -
      from el_row [OF that] obtain rq where rq: "rq \<in> set el"
        "nr_avg_net rq = spec_average_net db rounds q" by blast
      from hd_min(1) [OF rq(1)] row(2) row_el [OF row(1)] row(3) rq(2) show ?thesis by simp
    qed
    with row_el [OF row(1)] row(3) show "spec_net_eligible db rounds pid
          \<and> (\<forall>q. spec_net_eligible db rounds q \<longrightarrow>
                 spec_average_net db rounds pid \<le> spec_average_net db rounds q)" by blast
  next
    assume a: "spec_net_eligible db rounds pid
          \<and> (\<forall>q. spec_net_eligible db rounds q \<longrightarrow>
                 spec_average_net db rounds pid \<le> spec_average_net db rounds q)"
    from el_row [of pid] a obtain row where row: "row \<in> set el" "rid row = pid"
      "nr_avg_net row = spec_average_net db rounds pid" by blast
    from hd_min [OF row(1)] have h: "nr_avg_net (hd el) \<le> nr_avg_net row" "hd el \<in> set el" .
    from row_el [OF h(2)] a have "spec_average_net db rounds pid \<le> nr_avg_net (hd el)" by auto
    with h(1) row(3) have "nr_avg_net row = nr_avg_net (hd el)" by simp
    with row show "pid \<in> set (net_players (sd_champions res))"
      unfolding champs' by (auto split: if_splits)
  qed
  have none: "net_players (sd_champions res) = []" if "\<forall>pid. spec_rounds_played db rounds pid < 5"
  proof -
    have "el = []"
    proof (rule ccontr)
      assume "el \<noteq> []"
      then obtain row where "row \<in> set el" by (cases el) auto
      from row_el [OF this] have "5 \<le> spec_rounds_played db rounds (rid row)"
        by (simp add: spec_net_eligible_def)
      moreover from that have "spec_rounds_played db rounds (rid row) < 5" by blast
      ultimately show False by simp
    qed
    then show ?thesis
      unfolding champs net_champions_def Let_def el_def [symmetric] by simp
  qed
  from res iff none show ?thesis by blast
qed

theorem net_champions_minimum_witness:
  "(\<exists>res. compute_league_standings league_db sample_league five_rounds = Inr res
      \<and> 21 \<in> set (net_players (sd_champions res))
      \<and> 22 \<in> set (net_players (sd_champions res))
      \<and> 23 \<notin> set (net_players (sd_champions res)))
   \<and> (\<exists>res. compute_league_standings league_db sample_league four_rounds = Inr res
      \<and> net_players (sd_champions res) = [])"
proof -
  from net_champions_minimum [OF league_closed league_fk(1)]
  obtain res where res: "compute_league_standings league_db sample_league five_rounds = Inr res"
    and iff: "\<And>pid. pid \<in> set (net_players (sd_champions res)) \<longleftrightarrow>
            spec_net_eligible league_db five_rounds pid
          \<and> (\<forall>q. spec_net_eligible league_db five_rounds q \<longrightarrow>
                 spec_average_net league_db five_rounds pid \<le> spec_average_net league_db five_rounds q)"
    by blast
  have "21 \<in> set (net_players (sd_champions res))" "22 \<in> set (net_players (sd_champions res))"
    "23 \<notin> set (net_players (sd_champions res))"
    unfolding iff by (simp_all add: five_eligible)
  with res have A: "\<exists>res. compute_league_standings league_db sample_league five_rounds = Inr res
      \<and> 21 \<in> set (net_players (sd_champions res))
      \<and> 22 \<in> set (net_players (sd_champions res))
      \<and> 23 \<notin> set (net_players (sd_champions res))" by blast
  from net_champions_minimum [OF league_closed league_fk(2)] four_played
  have B: "\<exists>res. compute_league_standings league_db sample_league four_rounds = Inr res
      \<and> net_players (sd_champions res) = []" by blast
  from A B show ?thesis by blast
qed

text \<open>
  C10. For every league in which the player of every counted participation exists, the
  standings are computed and a player whose scratch-Stableford points over the league's
  counted participations sum to 0 has no row in the scratch leaderboard (every row
  belongs to another player) and is not among the scratch champions. If every player's
  sum is 0, the scratch leaderboard and the list of scratch champions are empty; this
  holds in particular for a closed league.
\<close>

theorem scratch_zero_omitted:
  assumes fk: "\<forall>r\<in>set rounds. \<forall>rp\<in>set (round_players_of db r).
                 rp_gross_total rp \<noteq> None \<longrightarrow> player_of db rp \<noteq> None"
  shows "\<exists>res. compute_league_standings db league rounds = Inr res
     \<and> (\<forall>pid. spec_scratch_sum db rounds pid = 0 \<longrightarrow>
            (\<forall>row\<in>set (sd_scratch res). \<exists>p. sr_player row = Some p \<and> pl_id p \<noteq> pid)
          \<and> pid \<notin> set (scratch_players (sd_champions res)))
     \<and> ((\<forall>pid. spec_scratch_sum db rounds pid = 0) \<longrightarrow>
            sd_scratch res = [] \<and> scratch_players (sd_champions res) = [])"
proof -
  define S where "S = fold (round_step db) rounds []"
  define ss0 where
    "ss0 = map (\<lambda>(k, s). scratch_row_of s) (filter (\<lambda>(k, s). st_scratch_sum s > 0) S)"
  have present: "\<forall>(k, s)\<in>set (fold (round_step db) rounds []). st_player s \<noteq> None"
    using entry_player [OF fk] by fastforce
  from compute_league_standings_ok [OF present, of league]
  obtain res where res: "compute_league_standings db league rounds = Inr res"
    and rows: "sd_scratch res = sort_key scratch_key_of ss0"
    and champs: "scratch_players (sd_champions res) =
         (if is_closed league
          then map (\<lambda>p. pl_id (the p)) (scratch_champions (sd_scratch res)) else [])"
    unfolding ss0_def S_def by auto
  have row_of: "\<exists>p. sr_player row = Some p \<and> 0 < spec_scratch_sum db rounds (pl_id p)"
    if "row \<in> set (sd_scratch res)" for row
  proof -
    from that obtain k s where ks: "(k, s) \<in> set S" "st_scratch_sum s > 0"
      "row = scratch_row_of s"
      unfolding rows ss0_def by auto
    from entry_player [OF fk ks(1) [unfolded S_def]]
    obtain p where p: "st_player s = Some p" "pl_id p = k" by blast
    with final_stats(5) [OF ks(1) [unfolded S_def]] ks(2,3) show ?thesis by simp
  qed
  have champ_of: "0 < spec_scratch_sum db rounds pid"
    if "pid \<in> set (scratch_players (sd_champions res))" for pid
  proof -
    from that obtain p where "p \<in> set (scratch_champions (sd_scratch res))" "pid = pl_id (the p)"
      unfolding champs by (auto split: if_splits)
    with champions_players(3) [of "sd_scratch res"]
    obtain row where "row \<in> set (sd_scratch res)" "pid = pl_id (the (sr_player row))" by auto
    with row_of [of row] show ?thesis by auto
  qed
  have one: "(\<forall>row\<in>set (sd_scratch res). \<exists>p. sr_player row = Some p \<and> pl_id p \<noteq> pid)
          \<and> pid \<notin> set (scratch_players (sd_champions res))"
    if "spec_scratch_sum db rounds pid = 0" for pid
    using row_of champ_of [of pid] that by fastforce
  have all: "sd_scratch res = [] \<and> scratch_players (sd_champions res) = []"
    if "\<forall>pid. spec_scratch_sum db rounds pid = 0"
  proof -
    have "sd_scratch res = []"
    proof (rule ccontr)
      assume "sd_scratch res \<noteq> []"
      then obtain row where "row \<in> set (sd_scratch res)" by (cases "sd_scratch res") auto
      from row_of [OF this] that show False by auto
    qed
    then show ?thesis by (simp add: champs scratch_champions_def)
  qed
  from res one all show ?thesis by blast
qed

theorem scratch_zero_omitted_witness:
  "(\<exists>res. compute_league_standings league_db sample_league five_rounds = Inr res
      \<and> 23 \<notin> set (scratch_players (sd_champions res))
      \<and> Some 23 \<notin> set (map (\<lambda>row. map_option pl_id (sr_player row)) (sd_scratch res)))
   \<and> (\<exists>res. compute_league_standings duffers_db sample_league [league_round 1] = Inr res
      \<and> sd_scratch res = [] \<and> scratch_players (sd_champions res) = [])"
proof -
  from scratch_zero_omitted [OF league_fk(1), of sample_league] five_scratch
  have A: "\<exists>res. compute_league_standings league_db sample_league five_rounds = Inr res
      \<and> 23 \<notin> set (scratch_players (sd_champions res))
      \<and> Some 23 \<notin> set (map (\<lambda>row. map_option pl_id (sr_player row)) (sd_scratch res))"
    by fastforce
  from scratch_zero_omitted [OF duffers_fk, of sample_league] duffers_scratch
  have B: "\<exists>res. compute_league_standings duffers_db sample_league [league_round 1] = Inr res
      \<and> sd_scratch res = [] \<and> scratch_players (sd_champions res) = []"
    by blast
  from A B show ?thesis by blast
qed

end
